theory Spec2Isabelle
  imports Complex_Main "HOL-Library.Word" "HOL-Library.Multiset"
begin

section \<open>JavaScript values\<close>

text \<open>
  A JavaScript string is a sequence of UTF-16 code units; \<open>.length\<close> counts code units
  and \<open>===\<close> compares them one by one.
\<close>

type_synonym jsstring = "16 word list"

text \<open>
  A field of a parsed JSON request body. \<open>JUndefined\<close> is an absent field, \<open>JNum\<close>
  carries the value of the parsed number, \<open>JOther\<close> is an array or an object.
\<close>

datatype json = JUndefined | JNull | JBool bool | JNum rat | JStr jsstring | JOther

subsection \<open>Numbers: IEEE 754 binary64\<close>

text \<open>
  A JavaScript \<open>Number\<close>, and the \<open>Number\<close> field of a mongoose schema, is a binary64
  floating-point value. A finite value is modelled by the rational it denotes; every
  arithmetic operation rounds its exact result to the nearest binary64 value, ties to the
  even significand. Infinities and NaN are not modelled: a request body parsed from JSON
  never holds NaN, and an infinite amount is rejected by the validation below like any
  amount that is not positive or is above the ceiling. Where binary64 would overflow to
  an infinity, from \<open>2 ^ 1024 - 2 ^ 970\<close> on, \<open>fl\<close> gives the finite rounded value; the
  sums the handlers compute from binary64 balances stay below that bound.
\<close>

fun bitlength :: "nat \<Rightarrow> nat" where
  "bitlength n = (if n = 0 then 0 else Suc (bitlength (n div 2)))"

declare bitlength.simps [simp del]

definition pow2 :: "int \<Rightarrow> rat" where
  "pow2 e = (if 0 \<le> e then 2 ^ nat e else 1 / 2 ^ nat (- e))"

definition round_half_even :: "rat \<Rightarrow> int" where
  "round_half_even x =
     (let n = \<lfloor>x\<rfloor>; d = x - of_int n
      in if d < 1 / 2 then n else if 1 / 2 < d then n + 1 else if even n then n else n + 1)"

text \<open>\<open>ilog2 x\<close> is the binary exponent of a positive \<open>x\<close>: \<open>2 ^ ilog2 x \<le> x < 2 ^ (ilog2 x + 1)\<close>.\<close>

definition ilog2 :: "rat \<Rightarrow> int" where
  "ilog2 x = (if 1 \<le> x then int (bitlength (nat \<lfloor>x\<rfloor>)) - 1
              else - int (bitlength (nat (\<lceil>1 / x\<rceil> - 1))))"

text \<open>
  The spacing of the binary64 values around \<open>x\<close> is \<open>2 ^ ulp_exp x\<close>: 53 significant
  bits, and never finer than the subnormal spacing \<open>2 ^ -1074\<close>.
\<close>

definition ulp_exp :: "rat \<Rightarrow> int" where
  "ulp_exp x = max (- 1074) (ilog2 \<bar>x\<bar> - 52)"

definition fl :: "rat \<Rightarrow> rat" where
  "fl x = of_int (round_half_even (x / pow2 (ulp_exp x))) * pow2 (ulp_exp x)"

definition is_double :: "rat \<Rightarrow> bool" where
  "is_double x \<longleftrightarrow> fl x = x \<and> \<bar>x\<bar> < 2 ^ 1024"

definition js_add :: "rat \<Rightarrow> rat \<Rightarrow> rat" where
  "js_add x y = fl (x + y)"

definition js_mul :: "rat \<Rightarrow> rat \<Rightarrow> rat" where
  "js_mul x y = fl (x * y)"

section \<open>The store: \<open>backend/db.js\<close>\<close>

text \<open>
  An \<open>ObjectId\<close>, written as the string of 24 lower-case hexadecimal digits that
  \<open>toString()\<close> prints. The schemas type \<open>_id\<close>, \<open>userId\<close>, \<open>fromUserId\<close> and
  \<open>toUserId\<close> as \<open>ObjectId\<close>.
\<close>

type_synonym objectid = jsstring

record user =
  user_id :: objectid
  username :: jsstring
  password :: jsstring
  firstName :: jsstring
  lastName :: jsstring

record account =
  userId :: objectid
  balance :: rat

datatype status = pending | completed | failed

record txn =
  txn_id :: objectid
  fromUserId :: objectid
  toUserId :: objectid
  amount :: rat
  status :: status
  description :: jsstring
  createdAt :: int

text \<open>
  The three collections. A collection is the list of its documents in insertion order;
  \<open>accountSchema\<close> declares no unique index on \<open>userId\<close>, so the list may hold several
  accounts of one user, and \<open>findOne\<close> and \<open>updateOne\<close> act on the first match.
\<close>

record db =
  users :: "user list"
  accounts :: "account list"
  transactions :: "txn list"

definition findOne_account :: "account list \<Rightarrow> objectid \<Rightarrow> account option" where
  "findOne_account as u = find (\<lambda>a. userId a = u) as"

definition findById_user :: "user list \<Rightarrow> objectid \<Rightarrow> user option" where
  "findById_user us u = find (\<lambda>x. user_id x = u) us"

definition findOne_username :: "user list \<Rightarrow> jsstring \<Rightarrow> user option" where
  "findOne_username us n = find (\<lambda>x. username x = n) us"

text \<open>\<open>Account.updateOne({ userId: u }, { $inc: { balance: d } })\<close>\<close>

fun updateOne_inc :: "account list \<Rightarrow> objectid \<Rightarrow> rat \<Rightarrow> account list" where
  "updateOne_inc [] u d = []"
| "updateOne_inc (a # as) u d =
     (if userId a = u then a\<lparr>balance := js_add (balance a) d\<rparr> # as
      else a # updateOne_inc as u d)"

text \<open>
  The handlers hold user ids as strings (\<open>req.userId\<close>, \<open>to\<close>) and compare them as
  strings; every store operation casts the string in its filter or document to an
  \<open>ObjectId\<close> first, and rejects when the string does not cast. The cast belongs to
  the store's driver and is a parameter of the handlers below. \<open>hex_cast\<close> is that
  cast on the strings of 24 hexadecimal digits, the form in which the service issues
  ids: the digits may be in either case, and name the id that the same digits in lower
  case spell. It is the cast of the scenarios below, and casts no other string.
\<close>

definition is_hex_digit :: "16 word \<Rightarrow> bool" where
  "is_hex_digit c \<longleftrightarrow>
     (0x30 \<le> c \<and> c \<le> 0x39) \<or> (0x41 \<le> c \<and> c \<le> 0x46) \<or> (0x61 \<le> c \<and> c \<le> 0x66)"

definition lower_hex :: "16 word \<Rightarrow> 16 word" where
  "lower_hex c = (if 0x41 \<le> c \<and> c \<le> 0x46 then c + 0x20 else c)"

definition hex_cast :: "jsstring \<Rightarrow> objectid option" where
  "hex_cast s =
     (if length s = 24 \<and> list_all is_hex_digit s then Some (map lower_hex s) else None)"

text \<open>
  A session's transaction works on a copy of the store: the reads and writes made with
  \<open>.session(session)\<close> see and change the copy only, \<open>commitTransaction\<close> installs the
  copy and \<open>abortTransaction\<close> drops it. Both take the committed store and the copy and
  give the store the call leaves behind. A commit that rejects installs nothing, and
  leaves the session in a state in which \<open>abortTransaction\<close> throws.
  \<open>startSession\<close> and \<open>endSession\<close> allocate and release the session handle only.
\<close>

definition startTransaction :: "db \<Rightarrow> db" where
  "startTransaction d = d"

definition abortTransaction :: "db \<Rightarrow> db \<Rightarrow> db" where
  "abortTransaction d work = d"

definition commitTransaction :: "db \<Rightarrow> db \<Rightarrow> db" where
  "commitTransaction d work = work"

section \<open>Request validation: the zod schemas\<close>

datatype field = To | Amount | Description | Username | FirstName | LastName | Password

datatype issue_code = invalid_type | too_small | too_big | invalid_string

type_synonym issue = "field \<times> issue_code"

text \<open>\<open>zod.string().min(lo).max(hi)\<close>; \<open>hi = None\<close> when the schema has no \<open>max\<close>.\<close>

definition zod_string :: "field \<Rightarrow> nat \<Rightarrow> nat option \<Rightarrow> json \<Rightarrow> issue list + jsstring" where
  "zod_string f lo hi v =
     (case v of
        JStr s \<Rightarrow>
          (let issues = (if length s < lo then [(f, too_small)] else []) @
                        (case hi of None \<Rightarrow> []
                         | Some h \<Rightarrow> if h < length s then [(f, too_big)] else [])
           in if issues = [] then Inr s else Inl issues)
      | _ \<Rightarrow> Inl [(f, invalid_type)])"

text \<open>\<open>zod.number().positive('Amount must be positive').max(100000, 'Amount too large')\<close>\<close>

definition zod_amount :: "json \<Rightarrow> issue list + rat" where
  "zod_amount v =
     (case v of
        JNum n \<Rightarrow>
          (let issues = (if 0 < n then [] else [(Amount, too_small)]) @
                        (if n \<le> 100000 then [] else [(Amount, too_big)])
           in if issues = [] then Inr n else Inl issues)
      | _ \<Rightarrow> Inl [(Amount, invalid_type)])"

text \<open>\<open>zod.string().max(200).optional()\<close>\<close>

definition zod_description :: "json \<Rightarrow> issue list + jsstring option" where
  "zod_description v =
     (case v of
        JUndefined \<Rightarrow> Inr None
      | _ \<Rightarrow> (case zod_string Description 0 (Some 200) v of
                Inl issues \<Rightarrow> Inl issues
              | Inr s \<Rightarrow> Inr (Some s)))"

definition issues_of :: "issue list + 'a \<Rightarrow> issue list" where
  "issues_of r = (case r of Inl issues \<Rightarrow> issues | Inr _ \<Rightarrow> [])"

record transfer_body =
  body_to :: json
  body_amount :: json
  body_description :: json

record transfer_data =
  data_to :: jsstring
  data_amount :: rat
  data_description :: "jsstring option"

text \<open>\<open>transferBody.safeParse(req.body)\<close>: the issues of all three fields, in schema order.\<close>

definition transferBody :: "transfer_body \<Rightarrow> issue list + transfer_data" where
  "transferBody b =
     (case (zod_string To 1 None (body_to b), zod_amount (body_amount b),
            zod_description (body_description b)) of
        (Inr t, Inr n, Inr d) \<Rightarrow> Inr \<lparr>data_to = t, data_amount = n, data_description = d\<rparr>
      | (r1, r2, r3) \<Rightarrow> Inl (issues_of r1 @ issues_of r2 @ issues_of r3))"

section \<open>\<open>POST /transfer\<close>: \<open>backend/routes/account.js\<close>\<close>

text \<open>
  The awaited store operations of the handler, in program order. Each of them may reject
  (the store is unreachable, a write conflict, an id that does not cast); the handler's
  \<open>catch\<close> block then aborts the transaction and answers 500. When it is the commit
  that rejects, the \<open>abortTransaction\<close> of the \<open>catch\<close> block throws in its turn and
  the handler sends no answer at all.
\<close>

datatype dbop =
  FindSender | FindRecipient | FindRecipientUser | DebitSender | CreditRecipient |
  CreateRecord | Commit

datatype transfer_response =
    ValidationFailed "issue list"
  | CannotTransferToSelf
  | SenderAccountNotFound
  | InsufficientBalance
  | RecipientAccountNotFound
  | RecipientUserNotFound
  | TransferSuccessful objectid rat jsstring jsstring
  | TransferFailedTryAgain
  | NoResponse

text \<open>
  What the handler takes from its environment: which store operations reject, the
  store's cast of an id string, the \<open>_id\<close> the store gives the new record, and the
  time of its \<open>createdAt\<close> stamp.
\<close>

record transfer_env =
  throws :: "dbop \<Rightarrow> bool"
  cast_id :: "jsstring \<Rightarrow> objectid option"
  new_txn_id :: objectid
  now :: int

text \<open>The id a store operation works on; \<open>None\<close> when the operation rejects.\<close>

definition op_id :: "transfer_env \<Rightarrow> dbop \<Rightarrow> jsstring \<Rightarrow> objectid option" where
  "op_id env op s = (if throws env op then None else cast_id env s)"

definition full_name :: "user \<Rightarrow> jsstring" where
  "full_name u = firstName u @ [0x20] @ lastName u"

definition transfer :: "transfer_env \<Rightarrow> jsstring \<Rightarrow> transfer_body \<Rightarrow> db \<Rightarrow> transfer_response \<times> db" where
  "transfer env req_userId body d =
     (case transferBody body of
        Inl issues \<Rightarrow> (ValidationFailed issues, d)
      | Inr v \<Rightarrow>
         (let to = data_to v; amt = data_amount v;
              descr = (case data_description v of None \<Rightarrow> [] | Some s \<Rightarrow> s)
          in
          if to = req_userId then (CannotTransferToSelf, d)
          else
           (let s0 = startTransaction d in
            (case op_id env FindSender req_userId of
               None \<Rightarrow> (TransferFailedTryAgain, abortTransaction d s0)
             | Some sender_id \<Rightarrow>
                (case findOne_account (accounts s0) sender_id of
                   None \<Rightarrow> (SenderAccountNotFound, abortTransaction d s0)
                 | Some senderAccount \<Rightarrow>
                    (if balance senderAccount < amt then (InsufficientBalance, abortTransaction d s0)
                     else
                      (case op_id env FindRecipient to of
                         None \<Rightarrow> (TransferFailedTryAgain, abortTransaction d s0)
                       | Some recipient_id \<Rightarrow>
                          (case findOne_account (accounts s0) recipient_id of
                             None \<Rightarrow> (RecipientAccountNotFound, abortTransaction d s0)
                           | Some recipientAccount \<Rightarrow>
                              (case op_id env FindRecipientUser to of
                                 None \<Rightarrow> (TransferFailedTryAgain, abortTransaction d s0)
                               | Some recipient_user_id \<Rightarrow>
                                  (case findById_user (users s0) recipient_user_id of
                                     None \<Rightarrow> (RecipientUserNotFound, abortTransaction d s0)
                                   | Some recipientUser \<Rightarrow>
                                      (case op_id env DebitSender req_userId of
                                         None \<Rightarrow> (TransferFailedTryAgain, abortTransaction d s0)
                                       | Some debit_id \<Rightarrow>
                                          (let s1 = s0\<lparr>accounts :=
                                                      updateOne_inc (accounts s0) debit_id (- amt)\<rparr> in
                                           (case op_id env CreditRecipient to of
                                              None \<Rightarrow> (TransferFailedTryAgain, abortTransaction d s1)
                                            | Some credit_id \<Rightarrow>
                                               (let s2 = s1\<lparr>accounts :=
                                                           updateOne_inc (accounts s1) credit_id amt\<rparr> in
                                                (case (op_id env CreateRecord req_userId,
                                                       op_id env CreateRecord to) of
                                                   (Some from_id, Some to_id) \<Rightarrow>
                                                     (let s3 = s2\<lparr>transactions := transactions s2 @
                                                                 [\<lparr>txn_id = new_txn_id env,
                                                                   fromUserId = from_id, toUserId = to_id,
                                                                   amount = amt, status = completed,
                                                                   description = descr,
                                                                   createdAt = now env\<rparr>]\<rparr> in
                                                      if throws env Commit then (NoResponse, d)
                                                      else (TransferSuccessful (new_txn_id env) amt
                                                              (full_name recipientUser)
                                                              (username recipientUser),
                                                            commitTransaction d s3))
                                                 | _ \<Rightarrow> (TransferFailedTryAgain,
                                                         abortTransaction d s2))))))))))))))))"

text \<open>
  The error taxonomy of the specification, read off the status code and message. A
  success and a call that is never answered carry no error.
\<close>

datatype error = InvalidRequest | SelfTransfer | AccountNotFound | InsufficientFunds | TransferFailed

fun error_of :: "transfer_response \<Rightarrow> error option" where
  "error_of (ValidationFailed issues) = Some InvalidRequest"
| "error_of CannotTransferToSelf = Some SelfTransfer"
| "error_of SenderAccountNotFound = Some AccountNotFound"
| "error_of InsufficientBalance = Some InsufficientFunds"
| "error_of RecipientAccountNotFound = Some AccountNotFound"
| "error_of RecipientUserNotFound = Some AccountNotFound"
| "error_of (TransferSuccessful i a n u) = None"
| "error_of TransferFailedTryAgain = Some TransferFailed"
| "error_of NoResponse = None"

fun succeeded :: "transfer_response \<Rightarrow> bool" where
  "succeeded (TransferSuccessful i a n u) \<longleftrightarrow> True"
| "succeeded r \<longleftrightarrow> False"

definition no_fault :: "dbop \<Rightarrow> bool" where
  "no_fault op = False"

text \<open>The balance \<open>findOne\<close> reads for an id; 0 when the id has no account.\<close>

definition balance_of :: "db \<Rightarrow> objectid \<Rightarrow> rat" where
  "balance_of d u = (case findOne_account (accounts d) u of None \<Rightarrow> 0 | Some a \<Rightarrow> balance a)"

text \<open>
  The store a transfer of the validated request \<open>v\<close> commits, from the account of the
  id \<open>f\<close> to the account of the id \<open>t\<close>.
\<close>

definition committed :: "transfer_env \<Rightarrow> objectid \<Rightarrow> objectid \<Rightarrow> transfer_data \<Rightarrow> db \<Rightarrow> db" where
  "committed env f t v d =
     d\<lparr>accounts := updateOne_inc (updateOne_inc (accounts d) f (- data_amount v))
                      t (data_amount v),
        transactions := transactions d @
          [\<lparr>txn_id = new_txn_id env, fromUserId = f, toUserId = t,
            amount = data_amount v, status = completed,
            description = (case data_description v of None \<Rightarrow> [] | Some s \<Rightarrow> s),
            createdAt = now env\<rparr>]\<rparr>"

section \<open>\<open>POST /signup\<close>: \<open>backend/routes/user.js\<close>\<close>

record signup_body =
  su_username :: json
  su_firstName :: json
  su_lastName :: json
  su_password :: json

record signup_data =
  sd_username :: jsstring
  sd_firstName :: jsstring
  sd_lastName :: jsstring
  sd_password :: jsstring

text \<open>
  \<open>zod.string().email('Invalid email format')\<close>. The pattern zod matches an address
  against is a parameter.
\<close>

definition zod_email :: "(jsstring \<Rightarrow> bool) \<Rightarrow> json \<Rightarrow> issue list + jsstring" where
  "zod_email is_email v =
     (case v of
        JStr s \<Rightarrow> if is_email s then Inr s else Inl [(Username, invalid_string)]
      | _ \<Rightarrow> Inl [(Username, invalid_type)])"

definition signupBody :: "(jsstring \<Rightarrow> bool) \<Rightarrow> signup_body \<Rightarrow> issue list + signup_data" where
  "signupBody is_email b =
     (case (zod_email is_email (su_username b), zod_string FirstName 1 (Some 50) (su_firstName b),
            zod_string LastName 1 (Some 50) (su_lastName b),
            zod_string Password 6 None (su_password b)) of
        (Inr n, Inr f, Inr l, Inr p) \<Rightarrow>
          Inr \<lparr>sd_username = n, sd_firstName = f, sd_lastName = l, sd_password = p\<rparr>
      | (r1, r2, r3, r4) \<Rightarrow> Inl (issues_of r1 @ issues_of r2 @ issues_of r3 @ issues_of r4))"

text \<open>
  The awaited operations of the handler, each of which may reject, and what else it
  takes from its environment: the email pattern, the setters of \<open>userSchema\<close> (\<open>trim\<close>
  and \<open>lowercase\<close> on the username, \<open>trim\<close> on the two names), the bcrypt hash of the
  password, the \<open>_id\<close> of the new user, the value of \<open>Math.random()\<close> and the signed
  token.
\<close>

datatype signup_op = FindExisting | HashPassword | CreateUser | CreateAccount

record signup_env =
  su_throws :: "signup_op \<Rightarrow> bool"
  is_email :: "jsstring \<Rightarrow> bool"
  trim_lower :: "jsstring \<Rightarrow> jsstring"
  trim :: "jsstring \<Rightarrow> jsstring"
  hashed :: jsstring
  new_user_id :: objectid
  random :: rat
  token :: jsstring

datatype signup_response =
    SignupValidationFailed "issue list"
  | UserExists
  | UserCreated jsstring objectid jsstring jsstring jsstring
  | SignupError

text \<open>
  The validators of \<open>userSchema\<close>, which \<open>User.create\<close> runs on the document after its
  setters: every field is required (a string field is missing when it is empty), the
  username has 3 to 30 code units, the password at least 6, each name at most 50.
\<close>

definition user_valid :: "user \<Rightarrow> bool" where
  "user_valid u \<longleftrightarrow>
     3 \<le> length (username u) \<and> length (username u) \<le> 30 \<and> 6 \<le> length (password u) \<and>
     firstName u \<noteq> [] \<and> length (firstName u) \<le> 50 \<and>
     lastName u \<noteq> [] \<and> length (lastName u) \<le> 50"

text \<open>
  The handler opens no transaction: a rejected \<open>Account.create\<close> leaves the user
  it has just created in the store. The filter of \<open>User.findOne\<close> goes through the
  setters of the username as the document does.
\<close>

definition signup :: "signup_env \<Rightarrow> signup_body \<Rightarrow> db \<Rightarrow> signup_response \<times> db" where
  "signup env body d =
     (case signupBody (is_email env) body of
        Inl issues \<Rightarrow> (SignupValidationFailed issues, d)
      | Inr v \<Rightarrow>
         (if su_throws env FindExisting then (SignupError, d)
          else
           (case findOne_username (users d) (trim_lower env (sd_username v)) of
              Some existingUser \<Rightarrow> (UserExists, d)
            | None \<Rightarrow>
               (if su_throws env HashPassword then (SignupError, d)
                else
                 (let u = \<lparr>user_id = new_user_id env,
                           username = trim_lower env (sd_username v),
                           password = hashed env, firstName = trim env (sd_firstName v),
                           lastName = trim env (sd_lastName v)\<rparr>
                  in
                  if su_throws env CreateUser \<or> \<not> user_valid u then (SignupError, d)
                  else
                   (let d1 = d\<lparr>users := users d @ [u]\<rparr>
                    in
                    if su_throws env CreateAccount then (SignupError, d1)
                    else
                     (let d2 = d1\<lparr>accounts := accounts d1 @
                                 [\<lparr>userId = user_id u,
                                   balance = js_add 1000 (js_mul (random env) 9000)\<rparr>]\<rparr>
                      in (UserCreated (token env) (user_id u) (username u) (firstName u)
                            (lastName u), d2))))))))"

definition su_no_fault :: "signup_op \<Rightarrow> bool" where
  "su_no_fault op = False"

definition any_email :: "jsstring \<Rightarrow> bool" where
  "any_email s = True"

definition unchanged :: "jsstring \<Rightarrow> jsstring" where
  "unchanged s = s"

section \<open>The read-only routes\<close>

text \<open>
  \<open>parseFloat(x.toFixed(2))\<close>: \<open>toFixed\<close> takes the integer \<open>n\<close> with \<open>n / 100\<close> nearest
  to the exact value of \<open>x\<close>, the larger one at a tie, on the magnitude of \<open>x\<close>;
  from \<open>10 ^ 21\<close> on it prints \<open>x\<close> itself. \<open>parseFloat\<close> rounds the decimal to binary64.
\<close>

definition toFixed2 :: "rat \<Rightarrow> rat" where
  "toFixed2 x =
     (if 10 ^ 21 \<le> \<bar>x\<bar> then x
      else fl (sgn x * of_int \<lfloor>100 * \<bar>x\<bar> + 1 / 2\<rfloor> / 100))"

datatype balance_response = Balance rat jsstring | BalanceNotFound | BalanceError

text \<open>
  What a read takes from its environment: whether a store operation rejects, and the
  store's cast of an id string.
\<close>

record read_env =
  rejects :: bool
  read_cast :: "jsstring \<Rightarrow> objectid option"

text \<open>The id the queries of a read work on; \<open>None\<close> when they reject.\<close>

definition read_id :: "read_env \<Rightarrow> jsstring \<Rightarrow> objectid option" where
  "read_id env s = (if rejects env then None else read_cast env s)"

text \<open>\<open>GET /balance\<close>\<close>

definition getBalance :: "read_env \<Rightarrow> jsstring \<Rightarrow> db \<Rightarrow> balance_response" where
  "getBalance env req_userId d =
     (case read_id env req_userId of
        None \<Rightarrow> BalanceError
      | Some uid \<Rightarrow>
         (case findOne_account (accounts d) uid of
            None \<Rightarrow> BalanceNotFound
          | Some account \<Rightarrow> Balance (toFixed2 (balance account)) req_userId))"

text \<open>
  \<open>parseInt(req.query.x) || dflt\<close>: the parsed value is an integer or \<open>NaN\<close> (here
  \<open>None\<close>), and both \<open>NaN\<close> and 0 are falsy.
\<close>

definition or_default :: "int option \<Rightarrow> int \<Rightarrow> int" where
  "or_default v dflt = (case v of None \<Rightarrow> dflt | Some n \<Rightarrow> if n = 0 then dflt else n)"

text \<open>\<open>{ $or: [{ fromUserId: u }, { toUserId: u }] }\<close>\<close>

definition involves :: "objectid \<Rightarrow> txn \<Rightarrow> bool" where
  "involves u t \<longleftrightarrow> fromUserId t = u \<or> toUserId t = u"

text \<open>
  \<open>.sort({ createdAt: -1 })\<close>: newest first. Records with equal stamps keep their
  insertion order here; the store promises no order among them.
\<close>

definition newest_first :: "txn list \<Rightarrow> txn list" where
  "newest_first ts = sort_key (\<lambda>t. - createdAt t) ts"

text \<open>
  \<open>.skip(skip).limit(limit)\<close> on the sorted matches. The store rejects a negative
  \<open>skip\<close>; the driver sends the magnitude of a negative \<open>limit\<close>, and a \<open>limit\<close>
  of 0 is no limit.
\<close>

definition skip_limit :: "int \<Rightarrow> int \<Rightarrow> 'a list \<Rightarrow> 'a list option" where
  "skip_limit skip limit xs =
     (if skip < 0 then None
      else if limit = 0 then Some (drop (nat skip) xs)
      else Some (take (nat \<bar>limit\<bar>) (drop (nat skip) xs)))"

datatype tx_type = sent | received

record tx_view =
  view_id :: objectid
  view_amount :: rat
  view_type :: tx_type
  view_otherUser :: jsstring
  view_description :: jsstring
  view_status :: status
  view_date :: int

text \<open>
  One entry of the history response, after \<open>populate\<close> has replaced both user ids by
  the user documents (or \<open>null\<close>). Reading \<open>_id\<close> or a name of \<open>null\<close> throws (\<open>None\<close>).
  The entry is \<open>sent\<close> when the sender's \<open>_id.toString()\<close> is the string \<open>req.userId\<close>.
\<close>

definition format_tx :: "user list \<Rightarrow> jsstring \<Rightarrow> txn \<Rightarrow> tx_view option" where
  "format_tx us req_userId tx =
     (case findById_user us (fromUserId tx) of
        None \<Rightarrow> None
      | Some fu \<Rightarrow>
          if user_id fu = req_userId then
            (case findById_user us (toUserId tx) of
               None \<Rightarrow> None
             | Some tu \<Rightarrow>
                 Some \<lparr>view_id = txn_id tx, view_amount = amount tx, view_type = sent,
                       view_otherUser = full_name tu, view_description = description tx,
                       view_status = status tx, view_date = createdAt tx\<rparr>)
          else
            Some \<lparr>view_id = txn_id tx, view_amount = amount tx, view_type = received,
                  view_otherUser = full_name fu, view_description = description tx,
                  view_status = status tx, view_date = createdAt tx\<rparr>)"

fun those_opt :: "'a option list \<Rightarrow> 'a list option" where
  "those_opt [] = Some []"
| "those_opt (x # xs) =
     (case x of None \<Rightarrow> None
      | Some y \<Rightarrow> (case those_opt xs of None \<Rightarrow> None | Some ys \<Rightarrow> Some (y # ys)))"

record pagination =
  pg_page :: int
  pg_limit :: int
  pg_total :: nat
  pg_pages :: int

datatype history_response = History "tx_view list" pagination | HistoryError

text \<open>
  \<open>GET /transactions\<close>. \<open>q_page\<close> and \<open>q_limit\<close> are the results of \<open>parseInt\<close> on
  the two query parameters. The page and limit are whole numbers far below \<open>2 ^ 53\<close>,
  where the arithmetic of the handler is exact.
\<close>

definition transactions_page :: "txn list \<Rightarrow> objectid \<Rightarrow> int \<Rightarrow> int \<Rightarrow> txn list option" where
  "transactions_page ts uid page limit =
     skip_limit ((page - 1) * limit) limit (newest_first (filter (involves uid) ts))"

definition getTransactions ::
    "read_env \<Rightarrow> jsstring \<Rightarrow> int option \<Rightarrow> int option \<Rightarrow> db \<Rightarrow> history_response" where
  "getTransactions env req_userId q_page q_limit d =
     (let page = or_default q_page 1; limit = or_default q_limit 10
      in (case read_id env req_userId of
            None \<Rightarrow> HistoryError
          | Some uid \<Rightarrow>
             (case transactions_page (transactions d) uid page limit of
                None \<Rightarrow> HistoryError
              | Some txs \<Rightarrow>
                 (let total = length (filter (involves uid) (transactions d))
                  in (case those_opt (map (format_tx (users d) req_userId) txs) of
                        None \<Rightarrow> HistoryError
                      | Some formatted \<Rightarrow>
                          History formatted
                            \<lparr>pg_page = page, pg_limit = limit, pg_total = total,
                             pg_pages = \<lceil>(of_nat total :: rat) / of_int limit\<rceil>\<rparr>)))))"

datatype statement_type = debit | credit

record statement_entry =
  st_id :: objectid
  st_amount :: rat
  st_type :: statement_type
  st_description :: jsstring
  st_otherParty :: jsstring
  st_date :: int
  st_status :: status

text \<open>The string \<open>'Money transfer'\<close>, which stands in for an empty description.\<close>

definition money_transfer :: jsstring where
  "money_transfer =
     [0x4D, 0x6F, 0x6E, 0x65, 0x79, 0x20, 0x74, 0x72, 0x61, 0x6E, 0x73, 0x66, 0x65, 0x72]"

definition format_statement :: "user list \<Rightarrow> jsstring \<Rightarrow> txn \<Rightarrow> statement_entry option" where
  "format_statement us req_userId tx =
     (case findById_user us (fromUserId tx) of
        None \<Rightarrow> None
      | Some fu \<Rightarrow>
          if user_id fu = req_userId then
            (case findById_user us (toUserId tx) of
               None \<Rightarrow> None
             | Some tu \<Rightarrow>
                 Some \<lparr>st_id = txn_id tx, st_amount = amount tx, st_type = debit,
                       st_description =
                         (if description tx = [] then money_transfer else description tx),
                       st_otherParty = full_name tu, st_date = createdAt tx,
                       st_status = status tx\<rparr>)
          else
            Some \<lparr>st_id = txn_id tx, st_amount = amount tx, st_type = credit,
                  st_description =
                    (if description tx = [] then money_transfer else description tx),
                  st_otherParty = full_name fu, st_date = createdAt tx,
                  st_status = status tx\<rparr>)"

datatype statement_response = Statement rat "statement_entry list" | StatementError

text \<open>
  \<open>GET /statement\<close> of \<open>backend/routes/account.js\<close>: the newest records of the user, five
  unless the query asks otherwise, and the balance to two decimals (0 without an account).
\<close>

definition getStatement :: "read_env \<Rightarrow> jsstring \<Rightarrow> int option \<Rightarrow> db \<Rightarrow> statement_response" where
  "getStatement env req_userId q_limit d =
     (let limit = or_default q_limit 5
      in (case read_id env req_userId of
            None \<Rightarrow> StatementError
          | Some uid \<Rightarrow>
             (case skip_limit 0 limit (newest_first (filter (involves uid) (transactions d))) of
                None \<Rightarrow> StatementError
              | Some recentTransactions \<Rightarrow>
                 (case those_opt (map (format_statement (users d) req_userId) recentTransactions) of
                    None \<Rightarrow> StatementError
                  | Some formatted \<Rightarrow>
                      Statement
                        (case findOne_account (accounts d) uid of
                           None \<Rightarrow> 0
                         | Some account \<Rightarrow> toFixed2 (balance account))
                        formatted))))"

text \<open>
  Every record names two users the store holds, so \<open>populate\<close> finds both documents.
\<close>

definition populated :: "db \<Rightarrow> bool" where
  "populated d \<longleftrightarrow>
     (\<forall>t \<in> set (transactions d).
        findById_user (users d) (fromUserId t) \<noteq> None \<and>
        findById_user (users d) (toUserId t) \<noteq> None)"

section \<open>Runs of the service\<close>

datatype request =
    Signup signup_env signup_body
  | Transfer transfer_env jsstring transfer_body
  | GetBalance read_env jsstring
  | GetStatement read_env jsstring "int option"
  | GetTransactions read_env jsstring "int option" "int option"

text \<open>
  The store a request leaves behind. The three reads answer from the store and leave it
  as it is. The other routes of the service (sign-in, profile, user search) touch
  neither an account nor the transaction log.
\<close>

fun step :: "request \<Rightarrow> db \<Rightarrow> db" where
  "step (Signup env body) d = snd (signup env body d)"
| "step (Transfer env u body) d = snd (transfer env u body d)"
| "step (GetBalance env u) d = d"
| "step (GetStatement env u l) d = d"
| "step (GetTransactions env u p l) d = d"

definition run :: "request list \<Rightarrow> db \<Rightarrow> db" where
  "run rs d = fold step rs d"

definition empty_db :: db where
  "empty_db = \<lparr>users = [], accounts = [], transactions = []\<rparr>"

text \<open>
  What the environment guarantees of a request: \<open>Math.random()\<close> is a binary64 value
  in \<open>[0, 1)\<close>.
\<close>

fun request_ok :: "request \<Rightarrow> bool" where
  "request_ok (Signup env body) \<longleftrightarrow> is_double (random env) \<and> 0 \<le> random env \<and> random env < 1"
| "request_ok (Transfer env u body) \<longleftrightarrow> True"
| "request_ok (GetBalance env u) \<longleftrightarrow> True"
| "request_ok (GetStatement env u l) \<longleftrightarrow> True"
| "request_ok (GetTransactions env u p l) \<longleftrightarrow> True"

definition nonneg_balances :: "db \<Rightarrow> bool" where
  "nonneg_balances d \<longleftrightarrow> (\<forall>a \<in> set (accounts d). 0 \<le> balance a)"

definition binary64_balances :: "db \<Rightarrow> bool" where
  "binary64_balances d \<longleftrightarrow> (\<forall>a \<in> set (accounts d). is_double (balance a) \<and> 0 \<le> balance a)"

section \<open>Scenario data\<close>

text \<open>
  Two users with an account each, a user id with no account, and a fault-free call. The
  ids are strings of 24 hexadecimal digits, as the store issues them.
\<close>

definition alice :: jsstring where
  "alice =
     [0x61, 0x61, 0x61, 0x61, 0x61, 0x61, 0x61, 0x61, 0x61, 0x61, 0x61, 0x61,
      0x61, 0x61, 0x61, 0x61, 0x61, 0x61, 0x61, 0x61, 0x61, 0x61, 0x61, 0x61]"

definition bob :: jsstring where
  "bob =
     [0x62, 0x62, 0x62, 0x62, 0x62, 0x62, 0x62, 0x62, 0x62, 0x62, 0x62, 0x62,
      0x62, 0x62, 0x62, 0x62, 0x62, 0x62, 0x62, 0x62, 0x62, 0x62, 0x62, 0x62]"

definition ghost :: jsstring where
  "ghost =
     [0x66, 0x66, 0x66, 0x66, 0x66, 0x66, 0x66, 0x66, 0x66, 0x66, 0x66, 0x66,
      0x66, 0x66, 0x66, 0x66, 0x66, 0x66, 0x66, 0x66, 0x66, 0x66, 0x66, 0x66]"

text \<open>Alice's id, spelt with upper-case digits.\<close>

definition alice_upper :: jsstring where
  "alice_upper =
     [0x41, 0x41, 0x41, 0x41, 0x41, 0x41, 0x41, 0x41, 0x41, 0x41, 0x41, 0x41,
      0x41, 0x41, 0x41, 0x41, 0x41, 0x41, 0x41, 0x41, 0x41, 0x41, 0x41, 0x41]"

definition env0 :: transfer_env where
  "env0 = \<lparr>throws = no_fault, cast_id = hex_cast, new_txn_id = [0x74], now = 0\<rparr>"

definition read0 :: read_env where
  "read0 = \<lparr>rejects = False, read_cast = hex_cast\<rparr>"

definition person :: "objectid \<Rightarrow> user" where
  "person u = \<lparr>user_id = u, username = u, password = [], firstName = u, lastName = u\<rparr>"

definition two_accounts :: "rat \<Rightarrow> rat \<Rightarrow> db" where
  "two_accounts x y =
     \<lparr>users = [person alice, person bob],
      accounts = [\<lparr>userId = alice, balance = x\<rparr>, \<lparr>userId = bob, balance = y\<rparr>],
      transactions = []\<rparr>"

definition send :: "jsstring \<Rightarrow> rat \<Rightarrow> transfer_body" where
  "send to n = \<lparr>body_to = JStr to, body_amount = JNum n, body_description = JUndefined\<rparr>"

text \<open>
  A fault-free signup of a user with a given value of \<open>Math.random()\<close>; two signups
  whose values of \<open>Math.random()\<close> are the numbers 0.01 and 0.69; a transfer of the
  amount 0.7. A decimal literal stands for the binary64 value nearest to it.
\<close>

definition signup_env_of :: "objectid \<Rightarrow> rat \<Rightarrow> signup_env" where
  "signup_env_of u r =
     \<lparr>su_throws = su_no_fault, is_email = any_email, trim_lower = unchanged,
      trim = unchanged, hashed = [0x24, 0x32, 0x62, 0x24, 0x31, 0x30], new_user_id = u,
      random = r, token = []\<rparr>"

definition signup_body_of :: "jsstring \<Rightarrow> signup_body" where
  "signup_body_of u =
     \<lparr>su_username = JStr u, su_firstName = JStr u, su_lastName = JStr u,
      su_password = JStr [0x70, 0x61, 0x73, 0x73, 0x77, 0x64]\<rparr>"

definition two_signups :: "request list" where
  "two_signups =
     [Signup (signup_env_of alice (fl (1 / 100))) (signup_body_of alice),
      Signup (signup_env_of bob (fl (69 / 100))) (signup_body_of bob)]"

definition small_transfer :: request where
  "small_transfer = Transfer env0 alice (send bob (fl (7 / 10)))"

text \<open>A store with three records between the two users, and the entries of its history.\<close>

definition sample_tx :: "objectid \<Rightarrow> objectid \<Rightarrow> objectid \<Rightarrow> rat \<Rightarrow> int \<Rightarrow> txn" where
  "sample_tx i f t n c =
     \<lparr>txn_id = i, fromUserId = f, toUserId = t, amount = n, status = completed,
      description = [], createdAt = c\<rparr>"

definition history_db :: db where
  "history_db =
     (two_accounts 1000 500)
       \<lparr>transactions := [sample_tx [1] alice bob 10 5, sample_tx [2] bob alice 20 9,
                         sample_tx [3] alice bob 30 7]\<rparr>"

definition sample_view :: "objectid \<Rightarrow> rat \<Rightarrow> tx_type \<Rightarrow> int \<Rightarrow> tx_view" where
  "sample_view i n ty c =
     \<lparr>view_id = i, view_amount = n, view_type = ty, view_otherUser = full_name (person bob),
      view_description = [], view_status = completed, view_date = c\<rparr>"

section \<open>Evaluation rules\<close>

lemmas transfer_eval =
  transfer_def transferBody_def zod_string_def zod_amount_def zod_description_def issues_of_def
  Let_def startTransaction_def abortTransaction_def commitTransaction_def findOne_account_def
  findById_user_def no_fault_def env0_def send_def two_accounts_def person_def alice_def
  bob_def ghost_def full_name_def op_id_def hex_cast_def is_hex_digit_def lower_hex_def
  alice_upper_def

section \<open>Binary64 rounding\<close>

lemma bitlength_0: "bitlength 0 = 0"
  by (simp add: bitlength.simps)

lemma bitlength_Suc_0: "bitlength (Suc 0) = 1"
  by (simp add: bitlength.simps [of "Suc 0"] bitlength.simps [of 0])

lemma bitlength_1: "bitlength 1 = 1"
  using bitlength_Suc_0 by simp

lemma bitlength_One: "bitlength (numeral Num.One) = 1"
  using bitlength_1 by simp

lemma bitlength_Bit0: "bitlength (numeral (Num.Bit0 k)) = Suc (bitlength (numeral k))"
  by (subst bitlength.simps) (simp add: numeral_Bit0_div_2)

lemma bitlength_Bit1: "bitlength (numeral (Num.Bit1 k)) = Suc (bitlength (numeral k))"
  by (subst bitlength.simps) (simp add: numeral_Bit1_div_2)

lemma floor_rat_numeral_div: "\<lfloor>numeral a / numeral b :: rat\<rfloor> = numeral a div numeral b"
  by (metis floor_divide_of_int_eq of_int_numeral)

lemma floor_rat_one_div: "\<lfloor>1 / numeral b :: rat\<rfloor> = 1 div numeral b"
  by (metis floor_divide_of_int_eq of_int_numeral of_int_1)

lemma ceiling_rat_numeral_div: "\<lceil>numeral a / numeral b :: rat\<rceil> = - (- numeral a div numeral b)"
  unfolding ceiling_def by (metis floor_divide_of_int_eq of_int_numeral of_int_minus minus_divide_left)

lemmas fl_eval =
  fl_def js_add_def js_mul_def ulp_exp_def ilog2_def pow2_def round_half_even_def Let_def
  bitlength_0 bitlength_1 bitlength_Suc_0 bitlength_One bitlength_Bit0 bitlength_Bit1
  floor_rat_numeral_div floor_rat_one_div ceiling_rat_numeral_div


lemma pow2_powi: "pow2 e = 2 powi e"
  by (simp add: pow2_def power_int_def power_inverse inverse_eq_divide power_one_over)

lemma pow2_pos [simp]: "0 < pow2 e"
  by (simp add: pow2_powi)

lemma pow2_nonneg [simp]: "0 \<le> pow2 e"
  using pow2_pos [of e] by (rule less_imp_le)

lemma pow2_neq0 [simp]: "pow2 e \<noteq> 0"
  using pow2_pos [of e] by (rule less_imp_neq [symmetric])

lemma pow2_add: "pow2 (a + b) = pow2 a * pow2 b"
  by (simp add: pow2_powi power_int_add)

lemma pow2_diff: "pow2 (a - b) = pow2 a / pow2 b"
  by (simp add: pow2_powi power_int_diff)

lemma pow2_mono: "a \<le> b \<Longrightarrow> pow2 a \<le> pow2 b"
  by (simp add: pow2_powi power_int_increasing)

lemma pow2_strict_mono: "a < b \<Longrightarrow> pow2 a < pow2 b"
  by (simp add: pow2_powi power_int_strict_increasing)

lemma pow2_less_cancel: "pow2 a < pow2 b \<Longrightarrow> a < b"
  using pow2_mono [of b a] by (cases "a < b") auto

lemma pow2_nonneg_exp: "0 \<le> e \<Longrightarrow> pow2 e = of_int (2 ^ nat e)"
  by (simp add: pow2_def)

lemma pow2_0 [simp]: "pow2 0 = 1"
  by (simp add: pow2_def)

lemma bitlength_bounds: "0 < n \<Longrightarrow> 2 ^ (bitlength n - 1) \<le> n \<and> n < 2 ^ bitlength n"
proof (induction n rule: bitlength.induct)
  case (1 n)
  show ?case
  proof (cases "n div 2 = 0")
    case True
    with "1.prems" have "n = 1" by auto
    then show ?thesis by (simp add: bitlength.simps [of "Suc 0"] bitlength.simps [of 0])
  next
    case False
    then have pos: "0 < n div 2" by simp
    from "1.prems" have n0: "n \<noteq> 0" by simp
    from "1.IH" [OF n0 pos] have ih: "2 ^ (bitlength (n div 2) - 1) \<le> n div 2" "n div 2 < 2 ^ bitlength (n div 2)"
      by auto
    have bl: "bitlength n = Suc (bitlength (n div 2))"
      using n0 by (subst bitlength.simps) simp
    have blpos: "0 < bitlength (n div 2)"
      using pos by (subst bitlength.simps) simp
    then have e: "2 ^ (bitlength n - 1) = 2 * 2 ^ (bitlength (n div 2) - 1)"
      using bl by (cases "bitlength (n div 2)") auto
    from ih show ?thesis unfolding e using bl by auto
  qed
qed

lemma bitlength_pos: "0 < n \<Longrightarrow> 0 < bitlength n"
  by (subst bitlength.simps) simp

lemma pow2_of_nat: "pow2 (int k) = 2 ^ k"
  by (simp add: pow2_def)

lemma pow2_neg_nat: "pow2 (- int k) = 1 / 2 ^ k"
  by (simp add: pow2_powi power_int_minus_divide)

lemma ilog2_ge1:
  assumes "1 \<le> x"
  shows "pow2 (ilog2 x) \<le> x \<and> x < pow2 (ilog2 x + 1)"
proof -
  define n where "n = nat \<lfloor>x\<rfloor>"
  have fl1: "1 \<le> \<lfloor>x\<rfloor>" using assms by simp
  then have npos: "0 < n" and nint: "int n = \<lfloor>x\<rfloor>" by (simp_all add: n_def)
  from bitlength_bounds [OF npos]
  have b: "2 ^ (bitlength n - 1) \<le> n" "n < 2 ^ bitlength n" by auto
  have blpos: "0 < bitlength n" using npos by (rule bitlength_pos)
  have il: "ilog2 x = int (bitlength n - 1)"
    using assms blpos by (simp add: ilog2_def n_def of_nat_diff)
  have il1: "ilog2 x + 1 = int (bitlength n)"
    using il blpos by simp
  have lo: "(of_nat n :: rat) \<le> x"
    using nint by (metis of_int_floor_le of_int_of_nat_eq)
  have hi: "x < of_nat (n + 1)"
    using nint by (metis floor_correct of_int_of_nat_eq of_nat_Suc Suc_eq_plus1 add.commute of_nat_add of_nat_1)
  have "(2 :: rat) ^ (bitlength n - 1) \<le> of_nat n"
    using b(1) by (metis of_nat_le_iff of_nat_numeral of_nat_power)
  moreover have "(of_nat (n + 1) :: rat) \<le> 2 ^ bitlength n"
    using b(2) by (metis Suc_eq_plus1 Suc_leI of_nat_le_iff of_nat_numeral of_nat_power)
  ultimately show ?thesis
    unfolding il1 unfolding il pow2_of_nat using lo hi by linarith
qed

lemma ilog2_lt1:
  assumes "0 < x" "x < 1"
  shows "pow2 (ilog2 x) \<le> x \<and> x < pow2 (ilog2 x + 1)"
proof -
  define c where "c = \<lceil>1 / x\<rceil>"
  define m where "m = nat (c - 1)"
  have y1: "1 < 1 / x" using assms by simp
  then have c2: "2 \<le> c" unfolding c_def by (simp add: le_ceiling_iff)
  then have mpos: "0 < m" and mint: "int m = c - 1" by (simp_all add: m_def)
  from bitlength_bounds [OF mpos]
  have b: "2 ^ (bitlength m - 1) \<le> m" "m < 2 ^ bitlength m" by auto
  have blpos: "0 < bitlength m" using mpos by (rule bitlength_pos)
  have il: "ilog2 x = - int (bitlength m)"
    using assms by (simp add: ilog2_def m_def c_def)
  have il1: "ilog2 x + 1 = - int (bitlength m - 1)"
    using il blpos by (simp add: of_nat_diff)
  have up: "1 / x \<le> of_int c" unfolding c_def by (rule le_of_int_ceiling)
  have dn: "of_int (c - 1) < 1 / x" unfolding c_def using ceiling_correct [of "1 / x"] by simp
  have "(of_nat m :: rat) < 1 / x" using dn mint by (metis of_int_of_nat_eq)
  moreover have "(2 :: rat) ^ (bitlength m - 1) \<le> of_nat m"
    using b(1) by (metis of_nat_le_iff of_nat_numeral of_nat_power)
  ultimately have A: "(2 :: rat) ^ (bitlength m - 1) < 1 / x" by linarith
  have "c \<le> 2 ^ bitlength m"
    using b(2) mint by (metis add.commute add_le_cancel_left diff_add_cancel of_nat_Suc of_nat_le_iff Suc_leI of_nat_numeral of_nat_power)
  then have "(of_int c :: rat) \<le> 2 ^ bitlength m"
    by (metis of_int_le_iff of_int_numeral of_int_power)
  with up have B: "1 / x \<le> (2 :: rat) ^ bitlength m" by linarith
  have xB: "1 / 2 ^ bitlength m \<le> x"
    using B assms(1) by (simp add: field_simps)
  have xA: "x < 1 / 2 ^ (bitlength m - 1)"
    using A assms(1) by (simp add: field_simps)
  show ?thesis
    unfolding il1 unfolding il pow2_neg_nat using xA xB by simp
qed

lemma ilog2_bounds:
  assumes "0 < x"
  shows "pow2 (ilog2 x) \<le> x \<and> x < pow2 (ilog2 x + 1)"
  using assms ilog2_ge1 ilog2_lt1 by (cases "1 \<le> x") auto

lemma ilog2_unique:
  assumes "0 < x" "pow2 k \<le> x" "x < pow2 (k + 1)"
  shows "ilog2 x = k"
proof -
  from ilog2_bounds [OF assms(1)]
  have b: "pow2 (ilog2 x) \<le> x" "x < pow2 (ilog2 x + 1)" by auto
  have "pow2 (ilog2 x) < pow2 (k + 1)" using b(1) assms(3) by linarith
  then have 1: "ilog2 x < k + 1" by (rule pow2_less_cancel)
  have "pow2 k < pow2 (ilog2 x + 1)" using b(2) assms(2) by linarith
  then have 2: "k < ilog2 x + 1" by (rule pow2_less_cancel)
  from 1 2 show ?thesis by simp
qed

lemma ilog2_mono:
  assumes "0 < x" "x \<le> y"
  shows "ilog2 x \<le> ilog2 y"
proof -
  have "pow2 (ilog2 x) \<le> x" using ilog2_bounds [OF assms(1)] by simp
  moreover have "y < pow2 (ilog2 y + 1)" using ilog2_bounds [of y] assms by simp
  ultimately have "pow2 (ilog2 x) < pow2 (ilog2 y + 1)" using assms(2) by linarith
  then show ?thesis using pow2_less_cancel by fastforce
qed

lemma round_half_even_of_int [simp]: "round_half_even (of_int n) = n"
  by (simp add: round_half_even_def)

lemma round_half_even_ge_floor: "\<lfloor>x\<rfloor> \<le> round_half_even x"
  by (simp add: round_half_even_def Let_def)

lemma round_half_even_le_floor1: "round_half_even x \<le> \<lfloor>x\<rfloor> + 1"
  by (simp add: round_half_even_def Let_def)

lemma round_half_even_nonneg: "0 \<le> x \<Longrightarrow> 0 \<le> round_half_even x"
  using round_half_even_ge_floor [of x] by (simp add: order_trans [of 0 "\<lfloor>x\<rfloor>"])

lemma round_half_even_ge_int:
  assumes "of_int b \<le> x"
  shows "b \<le> round_half_even x"
proof -
  from assms have "b \<le> \<lfloor>x\<rfloor>" by (simp add: le_floor_iff)
  then show ?thesis using round_half_even_ge_floor [of x] by linarith
qed

lemma round_half_even_le_int:
  assumes "x \<le> of_int b"
  shows "round_half_even x \<le> b"
proof (cases "x = of_int b")
  case True
  then show ?thesis by simp
next
  case False
  with assms have "x < of_int b" by simp
  then have "\<lfloor>x\<rfloor> < b" by (simp add: floor_less_iff)
  then show ?thesis using round_half_even_le_floor1 [of x] by linarith
qed

lemma round_half_even_mono:
  assumes "x \<le> y"
  shows "round_half_even x \<le> round_half_even y"
proof (cases "\<lfloor>x\<rfloor> = \<lfloor>y\<rfloor>")
  case True
  then show ?thesis using assms by (auto simp: round_half_even_def Let_def)
next
  case False
  with assms have "\<lfloor>x\<rfloor> < \<lfloor>y\<rfloor>" using floor_mono [OF assms] by simp
  then show ?thesis
    using round_half_even_le_floor1 [of x] round_half_even_ge_floor [of y] by linarith
qed

lemma round_half_even_minus: "round_half_even (- x) = - round_half_even x"
proof (cases "x = of_int \<lfloor>x\<rfloor>")
  case True
  then have "round_half_even (- of_int \<lfloor>x\<rfloor>) = - round_half_even (of_int \<lfloor>x\<rfloor>)"
    by (metis of_int_minus round_half_even_of_int)
  with True show ?thesis by simp
next
  case False
  then have lt: "of_int \<lfloor>x\<rfloor> < x" using of_int_floor_le [of x] by linarith
  have fm: "\<lfloor>- x\<rfloor> = - \<lfloor>x\<rfloor> - 1"
  proof (rule floor_unique)
    show "of_int (- \<lfloor>x\<rfloor> - 1) \<le> - x"
      using floor_correct [of x] by simp
    show "- x < of_int (- \<lfloor>x\<rfloor> - 1) + 1"
      using lt by simp
  qed
  show ?thesis
    unfolding round_half_even_def Let_def fm using lt by (auto simp: field_simps)
qed

lemma ulp_exp_minus [simp]: "ulp_exp (- x) = ulp_exp x"
  by (simp add: ulp_exp_def)

lemma ulp_exp_ge: "- 1074 \<le> ulp_exp x"
  by (simp add: ulp_exp_def)

lemma ulp_exp_mono:
  assumes "0 < x" "x \<le> y"
  shows "ulp_exp x \<le> ulp_exp y"
  using ilog2_mono [OF assms] assms by (simp add: ulp_exp_def)

lemma fl_0 [simp]: "fl 0 = 0"
  using round_half_even_of_int [of 0] by (simp add: fl_def)

lemma fl_minus: "fl (- x) = - fl x"
  by (simp add: fl_def round_half_even_minus)

lemma fl_nonneg:
  assumes "0 \<le> x"
  shows "0 \<le> fl x"
proof -
  have "0 \<le> x / pow2 (ulp_exp x)" using assms by simp
  then have "0 \<le> round_half_even (x / pow2 (ulp_exp x))" by (rule round_half_even_nonneg)
  then show ?thesis by (simp add: fl_def)
qed

lemma fl_nonpos: "x \<le> 0 \<Longrightarrow> fl x \<le> 0"
  using fl_nonneg [of "- x"] by (simp add: fl_minus)

lemma fl_on_grid:
  assumes "x / pow2 (ulp_exp x) = of_int k"
  shows "fl x = x"
proof -
  have "fl x = of_int k * pow2 (ulp_exp x)" by (simp add: fl_def assms)
  also have "\<dots> = x" using assms [symmetric] by simp
  finally show ?thesis .
qed

lemma fl_mono_pos:
  assumes "0 < x" "x \<le> y"
  shows "fl x \<le> fl y"
proof (cases "ulp_exp x = ulp_exp y")
  case True
  have "x / pow2 (ulp_exp y) \<le> y / pow2 (ulp_exp y)"
    using assms(2) by (simp add: divide_right_mono)
  then have "round_half_even (x / pow2 (ulp_exp y)) \<le> round_half_even (y / pow2 (ulp_exp y))"
    by (rule round_half_even_mono)
  then show ?thesis by (simp add: fl_def True)
next
  case False
  define k where "k = ilog2 y"
  have ypos: "0 < y" using assms by linarith
  from False ulp_exp_mono [OF assms] have lt: "ulp_exp x < ulp_exp y" by simp
  have ay: "\<bar>y\<bar> = y" using ypos by simp
  have gy: "ulp_exp y = k - 52"
    using lt ulp_exp_ge [of x] unfolding ulp_exp_def k_def ay by linarith
  have "ilog2 x - 52 \<le> ulp_exp x" using assms(1) by (simp add: ulp_exp_def)
  with lt gy have ix: "ilog2 x + 1 \<le> k" by linarith
  have xk: "x \<le> pow2 k"
    using ilog2_bounds [OF assms(1)] pow2_mono [OF ix] by linarith
  have ky: "pow2 k \<le> y" using ilog2_bounds [OF ypos] by (simp add: k_def)
  have hi: "pow2 k \<le> fl y"
  proof -
    have "pow2 k / pow2 (ulp_exp y) = of_int (2 ^ 52)"
      unfolding gy pow2_diff [symmetric] by (simp add: pow2_def)
    moreover have "pow2 k / pow2 (ulp_exp y) \<le> y / pow2 (ulp_exp y)"
      using ky by (simp add: divide_right_mono)
    ultimately have "of_int (2 ^ 52) \<le> y / pow2 (ulp_exp y)" by simp
    then have "2 ^ 52 \<le> round_half_even (y / pow2 (ulp_exp y))"
      by (rule round_half_even_ge_int)
    then have "of_int (2 ^ 52) * pow2 (ulp_exp y) \<le> fl y"
      unfolding fl_def by (simp add: mult_right_mono)
    moreover have "of_int (2 ^ 52) * pow2 (ulp_exp y) = pow2 k"
    proof -
      have "of_int (2 ^ 52) * pow2 (ulp_exp y) = pow2 52 * pow2 (k - 52)"
        unfolding gy by (simp add: pow2_def)
      also have "\<dots> = pow2 (52 + (k - 52))" by (simp only: pow2_add)
      also have "\<dots> = pow2 k" by simp
      finally show ?thesis .
    qed
    ultimately show ?thesis by simp
  qed
  have lo: "fl x \<le> pow2 k"
  proof -
    have nn: "0 \<le> k - ulp_exp x" using lt gy by simp
    have e: "pow2 k / pow2 (ulp_exp x) = of_int (2 ^ nat (k - ulp_exp x))"
      unfolding pow2_diff [symmetric] using nn by (simp add: pow2_def)
    have "x / pow2 (ulp_exp x) \<le> pow2 k / pow2 (ulp_exp x)"
      using xk by (simp add: divide_right_mono)
    then have "x / pow2 (ulp_exp x) \<le> of_int (2 ^ nat (k - ulp_exp x))" using e by simp
    then have "round_half_even (x / pow2 (ulp_exp x)) \<le> 2 ^ nat (k - ulp_exp x)"
      by (rule round_half_even_le_int)
    then have "fl x \<le> of_int (2 ^ nat (k - ulp_exp x)) * pow2 (ulp_exp x)"
      unfolding fl_def by (simp add: mult_right_mono)
    also have "\<dots> = pow2 k"
      using e [symmetric] by simp
    finally show ?thesis .
  qed
  from lo hi show ?thesis by linarith
qed

lemma fl_mono:
  assumes "x \<le> y"
  shows "fl x \<le> fl y"
proof -
  consider "0 < x" | "x \<le> 0" "0 \<le> y" | "y < 0" by linarith
  then show ?thesis
  proof cases
    case 1
    then show ?thesis using assms by (rule fl_mono_pos)
  next
    case 2
    then show ?thesis using fl_nonpos [of x] fl_nonneg [of y] by linarith
  next
    case 3
    then have "0 < - y" "- y \<le> - x" using assms by simp_all
    then have "fl (- y) \<le> fl (- x)" by (rule fl_mono_pos)
    then show ?thesis by (simp add: fl_minus)
  qed
qed

section \<open>Failing transfers\<close>

lemma transfer_unsuccessful_unchanged:
  "\<not> succeeded (fst (transfer env u b d)) \<Longrightarrow> snd (transfer env u b d) = d"
  unfolding transfer_def
  by (simp add: Let_def abortTransaction_def split: sum.splits option.splits if_splits)

lemma succeeded_no_error: "succeeded r \<Longrightarrow> error_of r = None"
  by (cases r) simp_all

lemma transfer_failure_unchanged:
  "error_of (fst (transfer env u b d)) \<noteq> None \<Longrightarrow> snd (transfer env u b d) = d"
  by (cases "succeeded (fst (transfer env u b d))")
    (simp_all add: transfer_unsuccessful_unchanged succeeded_no_error)

lemma transfer_validation_fails:
  assumes "transferBody b = Inl issues"
  shows "transfer env u b d = (ValidationFailed issues, d)"
  using assms by (simp add: transfer_def)

lemma transferBody_amount_bad:
  assumes "body_amount b = JNum n" "n \<le> 0 \<or> 100000 < n"
  shows "\<exists>issues. transferBody b = Inl issues"
  using assms
  by (auto simp: transferBody_def zod_amount_def Let_def split: sum.splits)

lemma transferBody_description_bad:
  assumes "body_description b = JStr s" "200 < length s"
  shows "\<exists>issues. transferBody b = Inl issues"
  using assms
  by (auto simp: transferBody_def zod_description_def zod_string_def Let_def split: sum.splits)

lemma transfer_self:
  assumes "transferBody b = Inr v" "data_to v = u"
  shows "transfer env u b d = (CannotTransferToSelf, d)"
  using assms by (simp add: transfer_def Let_def)

text \<open>
  Claim C3. Every transfer call that fails, with whichever of the five errors, leaves the
  whole store as it was: no balance has changed and no transaction record was created.
\<close>

theorem failed_transfer_leaves_store:
  assumes "error_of (fst (transfer env u b d)) = Some e"
  shows "snd (transfer env u b d) = d"
  using assms transfer_failure_unchanged [of env u b d] by simp

theorem failed_transfer_leaves_store_witness:
  "error_of (fst (transfer env0 alice (send bob 150) (two_accounts 100 500))) = Some InsufficientFunds
   \<and> snd (transfer env0 alice (send bob 150) (two_accounts 100 500)) = two_accounts 100 500"
proof -
  have h: "error_of (fst (transfer env0 alice (send bob 150) (two_accounts 100 500)))
           = Some InsufficientFunds"
    by (simp add: transfer_eval)
  from failed_transfer_leaves_store [OF h] h show ?thesis by simp
qed

text \<open>
  Claim C5. A request whose amount is not positive, or is above the ceiling of 100000, or
  whose description is longer than 200 code units, fails with InvalidRequest, and the
  answer is the same whatever the store holds and whichever store operation would
  reject: nothing is read, nothing is changed, no record is written.
\<close>

theorem invalid_request_before_store:
  assumes "(\<exists>n. body_amount b = JNum n \<and> (n \<le> 0 \<or> 100000 < n)) \<or>
           (\<exists>s. body_description b = JStr s \<and> 200 < length s)"
  shows "\<exists>issues. error_of (ValidationFailed issues) = Some InvalidRequest \<and>
           (\<forall>env u d. transfer env u b d = (ValidationFailed issues, d))"
proof -
  from assms obtain issues where "transferBody b = Inl issues"
    using transferBody_amount_bad transferBody_description_bad by blast
  then have "\<forall>env u d. transfer env u b d = (ValidationFailed issues, d)"
    by (simp add: transfer_validation_fails)
  then show ?thesis by auto
qed

theorem invalid_request_before_store_witness:
  "body_amount (send bob 0) = JNum 0 \<and>
   (\<exists>issues. error_of (ValidationFailed issues) = Some InvalidRequest \<and>
      (\<forall>env u d. transfer env u (send bob 0) d = (ValidationFailed issues, d)))"
proof -
  have h: "(\<exists>n. body_amount (send bob 0) = JNum n \<and> (n \<le> 0 \<or> 100000 < n)) \<or>
           (\<exists>s. body_description (send bob 0) = JStr s \<and> 200 < length s)"
    by (simp add: send_def)
  from invalid_request_before_store [OF h] show ?thesis by (simp add: send_def)
qed

text \<open>
  Claim C6, as stated: every request whose recipient is the sender fails with
  SelfTransfer, for every amount. It does not: validation runs first, so such a request
  with the amount 0 fails with InvalidRequest.
\<close>

theorem self_transfer_invalid_amount_counterexample:
  "body_to (send alice 0) = JStr alice \<and>
   error_of (fst (transfer env0 alice (send alice 0) (two_accounts 1000 500))) = Some InvalidRequest \<and>
   error_of (fst (transfer env0 alice (send alice 0) (two_accounts 1000 500))) \<noteq> Some SelfTransfer"
  by (simp add: transfer_eval)

text \<open>
  Claim C6, amended. The guard compares the field \<open>to\<close> with the string \<open>req.userId\<close>.
  Every request that passes validation and whose \<open>to\<close> is that very string fails with
  SelfTransfer and leaves the store as it was, whatever the valid amount, the sender's
  balance, the store and the store's faults; such a request that does not pass
  validation fails with InvalidRequest, and leaves the store as it was too.
\<close>

theorem self_transfer_rejected:
  assumes "body_to b = JStr u"
  shows "(\<forall>v. transferBody b = Inr v \<longrightarrow>
            (\<forall>env d. transfer env u b d = (CannotTransferToSelf, d)) \<and>
            error_of CannotTransferToSelf = Some SelfTransfer) \<and>
         (\<forall>issues. transferBody b = Inl issues \<longrightarrow>
            (\<forall>env d. transfer env u b d = (ValidationFailed issues, d)) \<and>
            error_of (ValidationFailed issues) = Some InvalidRequest)"
proof -
  have "data_to v = u" if "transferBody b = Inr v" for v
    using that assms
    by (auto simp: transferBody_def zod_string_def Let_def split: sum.splits if_splits)
  then show ?thesis
    by (auto simp: transfer_self transfer_validation_fails)
qed

theorem self_transfer_rejected_witness:
  "body_to (send alice 300) = JStr alice \<and>
   transferBody (send alice 300) =
     Inr \<lparr>data_to = alice, data_amount = 300, data_description = None\<rparr> \<and>
   transfer env0 alice (send alice 300) (two_accounts 1000 500) =
     (CannotTransferToSelf, two_accounts 1000 500)"
proof -
  have h: "body_to (send alice 300) = JStr alice"
    by (simp add: send_def)
  have v: "transferBody (send alice 300) =
             Inr \<lparr>data_to = alice, data_amount = 300, data_description = None\<rparr>"
    by (simp add: transfer_eval)
  from self_transfer_rejected [OF h] v h show ?thesis by blast
qed

text \<open>
  The guard does not reach every request addressed to the sender's own account. The
  store casts an id string to an \<open>ObjectId\<close> and reads the digits in either case, so the
  sender's id spelt with upper-case digits is another string and names the same
  account: the request passes the guard, the transfer is committed, the account is
  debited and credited with the amount, and a record from the sender to the sender is
  written.
\<close>

lemma self_transfer_other_spelling:
  "alice_upper \<noteq> alice \<and> cast_id env0 alice_upper = cast_id env0 alice \<and>
   fst (transfer env0 alice (send alice_upper 300) (two_accounts 1000 500)) =
     TransferSuccessful [0x74] 300 (full_name (person alice)) alice \<and>
   accounts (snd (transfer env0 alice (send alice_upper 300) (two_accounts 1000 500))) =
     accounts (two_accounts 1000 500) \<and>
   transactions (snd (transfer env0 alice (send alice_upper 300) (two_accounts 1000 500))) =
     [\<lparr>txn_id = [0x74], fromUserId = alice, toUserId = alice, amount = 300,
       status = completed, description = [], createdAt = 0\<rparr>]"
  by (simp add: transfer_eval fl_eval)

text \<open>
  Claim C4, as stated: a valid request to a recipient with no account fails with
  AccountNotFound whatever the sender's balance. It does not: the handler compares the
  sender's balance with the amount before it looks the recipient up, so with a balance
  of 100 and an amount of 150 the answer is InsufficientFunds.
\<close>

theorem missing_recipient_insufficient_counterexample:
  "transferBody (send ghost 150) =
     Inr \<lparr>data_to = ghost, data_amount = 150, data_description = None\<rparr> \<and>
   cast_id env0 ghost = Some ghost \<and>
   findOne_account (accounts (two_accounts 100 500)) ghost = None \<and>
   error_of (fst (transfer env0 alice (send ghost 150) (two_accounts 100 500))) = Some InsufficientFunds"
  by (simp add: transfer_eval)

text \<open>
  Claim C4, amended. For a request that passes validation, is not addressed to the
  sender, and whose recipient has no account, when the store answers both account
  lookups: the transfer fails with AccountNotFound if the sender has no account or holds
  at least the amount, and with InsufficientFunds if the sender's balance is below the
  amount. The funds check runs between the two lookups. (A lookup whose id string does
  not cast is one the store rejects: it gives TransferFailed.)
\<close>

theorem missing_recipient_outcome:
  assumes "transferBody b = Inr v" and "data_to v \<noteq> u"
    and "\<forall>t. cast_id env (data_to v) = Some t \<longrightarrow> findOne_account (accounts d) t = None"
    and "\<not> throws env FindSender" and "\<not> throws env FindRecipient"
  shows "error_of (fst (transfer env u b d)) =
           Some (case cast_id env u of
                   None \<Rightarrow> TransferFailed
                 | Some s \<Rightarrow>
                    (case findOne_account (accounts d) s of
                       None \<Rightarrow> AccountNotFound
                     | Some a \<Rightarrow>
                        if balance a < data_amount v then InsufficientFunds
                        else (case cast_id env (data_to v) of
                                None \<Rightarrow> TransferFailed
                              | Some t \<Rightarrow> AccountNotFound)))"
proof -
  note defs = transfer_def Let_def startTransaction_def op_id_def
  show ?thesis
  proof (cases "cast_id env u")
    case None
    then show ?thesis using assms(1,2,4) by (simp add: defs)
  next
    case s: (Some s)
    show ?thesis
    proof (cases "findOne_account (accounts d) s")
      case None
      then show ?thesis using assms(1,2,4) s by (simp add: defs)
    next
      case a: (Some a)
      show ?thesis
      proof (cases "balance a < data_amount v")
        case True
        then show ?thesis using assms(1,2,4) s a by (simp add: defs)
      next
        case False
        show ?thesis
        proof (cases "cast_id env (data_to v)")
          case None
          then show ?thesis using assms(1,2,4,5) s a False by (simp add: defs)
        next
          case (Some t)
          with assms(3) have "findOne_account (accounts d) t = None" by simp
          with Some show ?thesis using assms(1,2,4,5) s a False by (simp add: defs)
        qed
      qed
    qed
  qed
qed

theorem missing_recipient_outcome_witness:
  "transferBody (send ghost 50) =
     Inr \<lparr>data_to = ghost, data_amount = 50, data_description = None\<rparr> \<and>
   ghost \<noteq> alice \<and> cast_id env0 alice = Some alice \<and> cast_id env0 ghost = Some ghost \<and>
   findOne_account (accounts (two_accounts 100 500)) ghost = None \<and>
   \<not> throws env0 FindSender \<and> \<not> throws env0 FindRecipient \<and>
   error_of (fst (transfer env0 alice (send ghost 50) (two_accounts 100 500))) = Some AccountNotFound"
proof -
  have v: "transferBody (send ghost 50) =
             Inr \<lparr>data_to = ghost, data_amount = 50, data_description = None\<rparr>"
    by (simp add: transfer_eval)
  have n: "data_to \<lparr>data_to = ghost, data_amount = 50, data_description = None\<rparr> \<noteq> alice"
    by (simp add: ghost_def alice_def)
  have c: "cast_id env0 alice = Some alice" "cast_id env0 ghost = Some ghost"
    by (simp_all add: transfer_eval)
  have g: "findOne_account (accounts (two_accounts 100 500)) ghost = None"
    by (simp add: transfer_eval)
  from c(2) g
  have r: "\<forall>t. cast_id env0 (data_to \<lparr>data_to = ghost, data_amount = 50, data_description = None\<rparr>)
                 = Some t \<longrightarrow> findOne_account (accounts (two_accounts 100 500)) t = None"
    by simp
  have f: "\<not> throws env0 FindSender" "\<not> throws env0 FindRecipient"
    by (simp_all add: env0_def no_fault_def)
  have a: "findOne_account (accounts (two_accounts 100 500)) alice =
             Some \<lparr>userId = alice, balance = 100\<rparr>"
    by (simp add: transfer_eval)
  from missing_recipient_outcome [OF v n r f] v n c g f a show ?thesis
    by simp
qed

section \<open>Committed transfers\<close>

lemma transferBody_Inr:
  assumes "transferBody b = Inr v"
  shows "body_to b = JStr (data_to v) \<and> body_amount b = JNum (data_amount v) \<and>
         0 < data_amount v \<and> data_amount v \<le> 100000 \<and> data_to v \<noteq> []"
  using assms
  by (auto simp: transferBody_def zod_string_def zod_amount_def Let_def
           split: sum.splits json.splits if_splits)

lemma op_id_Some:
  "op_id env op s = Some i \<longleftrightarrow> \<not> throws env op \<and> cast_id env s = Some i"
  by (simp add: op_id_def)

lemma transfer_reaches_commit:
  assumes "error_of (fst (transfer env u b d)) = None"
  shows "\<exists>v f t sender recipient ruser.
           transferBody b = Inr v \<and> data_to v \<noteq> u \<and>
           cast_id env u = Some f \<and> cast_id env (data_to v) = Some t \<and>
           findOne_account (accounts d) f = Some sender \<and>
           data_amount v \<le> balance sender \<and>
           findOne_account (accounts d) t = Some recipient \<and>
           findById_user (users d) t = Some ruser \<and>
           transfer env u b d =
             (if throws env Commit then (NoResponse, d)
              else (TransferSuccessful (new_txn_id env) (data_amount v) (full_name ruser)
                      (username ruser),
                    committed env f t v d))"
proof -
  note defs = transfer_def Let_def startTransaction_def abortTransaction_def
    commitTransaction_def
  obtain v where v: "transferBody b = Inr v"
    using assms by (cases "transferBody b") (simp_all add: transfer_def)
  have ne: "data_to v \<noteq> u"
    using assms v by (auto simp: defs)
  obtain f where f1: "op_id env FindSender u = Some f"
    using assms v ne by (cases "op_id env FindSender u") (auto simp: defs)
  obtain sender where s: "findOne_account (accounts d) f = Some sender"
    using assms v ne f1 by (cases "findOne_account (accounts d) f") (auto simp: defs)
  have bal: "\<not> balance sender < data_amount v"
    using assms v ne f1 s by (auto simp: defs)
  obtain t where f2: "op_id env FindRecipient (data_to v) = Some t"
    using assms v ne f1 s bal
    by (cases "op_id env FindRecipient (data_to v)") (auto simp: defs)
  obtain recipient where r: "findOne_account (accounts d) t = Some recipient"
    using assms v ne f1 s bal f2
    by (cases "findOne_account (accounts d) t") (auto simp: defs)
  obtain t' where f3: "op_id env FindRecipientUser (data_to v) = Some t'"
    using assms v ne f1 s bal f2 r
    by (cases "op_id env FindRecipientUser (data_to v)") (auto simp: defs)
  obtain ruser where ru: "findById_user (users d) t' = Some ruser"
    using assms v ne f1 s bal f2 r f3
    by (cases "findById_user (users d) t'") (auto simp: defs)
  obtain f' where f4: "op_id env DebitSender u = Some f'"
    using assms v ne f1 s bal f2 r f3 ru
    by (cases "op_id env DebitSender u") (auto simp: defs)
  obtain t'' where f5: "op_id env CreditRecipient (data_to v) = Some t''"
    using assms v ne f1 s bal f2 r f3 ru f4
    by (cases "op_id env CreditRecipient (data_to v)") (auto simp: defs)
  have f6: "\<not> throws env CreateRecord"
    using assms v ne f1 s bal f2 r f3 ru f4 f5
    by (auto simp: defs op_id_def split: if_splits)
  from f1 f4 have cf: "cast_id env u = Some f" "f' = f"
    by (simp_all add: op_id_Some)
  from f2 f3 f5 have ct: "cast_id env (data_to v) = Some t" "t' = t" "t'' = t"
    by (simp_all add: op_id_Some)
  from f6 cf ct have f8: "op_id env CreateRecord u = Some f"
    "op_id env CreateRecord (data_to v) = Some t"
    by (simp_all add: op_id_Some)
  have "transfer env u b d =
          (if throws env Commit then (NoResponse, d)
           else (TransferSuccessful (new_txn_id env) (data_amount v) (full_name ruser)
                   (username ruser),
                 committed env f t v d))"
    using v ne f1 s bal f2 r f3 ru f4 f5 f8 cf ct by (simp add: defs committed_def)
  with v ne s bal r ru cf ct show ?thesis by auto
qed

lemma transfer_success:
  assumes "succeeded (fst (transfer env u b d))"
  shows "\<exists>v f t sender recipient ruser.
           transferBody b = Inr v \<and> data_to v \<noteq> u \<and>
           cast_id env u = Some f \<and> cast_id env (data_to v) = Some t \<and>
           findOne_account (accounts d) f = Some sender \<and>
           data_amount v \<le> balance sender \<and>
           findOne_account (accounts d) t = Some recipient \<and>
           findById_user (users d) t = Some ruser \<and>
           fst (transfer env u b d) =
             TransferSuccessful (new_txn_id env) (data_amount v) (full_name ruser) (username ruser) \<and>
           snd (transfer env u b d) = committed env f t v d"
proof -
  from assms have "error_of (fst (transfer env u b d)) = None"
    by (rule succeeded_no_error)
  from transfer_reaches_commit [OF this] obtain v f t sender recipient ruser where
    h: "transferBody b = Inr v" "data_to v \<noteq> u" "cast_id env u = Some f"
       "cast_id env (data_to v) = Some t" "findOne_account (accounts d) f = Some sender"
       "data_amount v \<le> balance sender" "findOne_account (accounts d) t = Some recipient"
       "findById_user (users d) t = Some ruser" and
    t: "transfer env u b d =
          (if throws env Commit then (NoResponse, d)
           else (TransferSuccessful (new_txn_id env) (data_amount v) (full_name ruser)
                   (username ruser),
                 committed env f t v d))"
    by blast
  from assms t have "\<not> throws env Commit"
    by (cases "throws env Commit") simp_all
  with t have "transfer env u b d =
      (TransferSuccessful (new_txn_id env) (data_amount v) (full_name ruser) (username ruser),
       committed env f t v d)"
    by simp
  with h show ?thesis by auto
qed

lemma updateOne_inc_nonneg:
  assumes "\<forall>a \<in> set as. 0 \<le> balance a"
    and "\<And>a. findOne_account as u = Some a \<Longrightarrow> 0 \<le> balance a + dlt"
  shows "\<forall>a \<in> set (updateOne_inc as u dlt). 0 \<le> balance a"
  using assms
proof (induction as)
  case Nil
  then show ?case by simp
next
  case (Cons a as)
  show ?case
  proof (cases "userId a = u")
    case True
    then have "0 \<le> balance a + dlt" using Cons.prems(2) by (simp add: findOne_account_def)
    then have "0 \<le> js_add (balance a) dlt" by (simp add: js_add_def fl_nonneg)
    then show ?thesis using True Cons.prems(1) by simp
  next
    case False
    then have "\<And>x. findOne_account as u = Some x \<Longrightarrow> 0 \<le> balance x + dlt"
      using Cons.prems(2) by (simp add: findOne_account_def)
    with Cons.IH Cons.prems(1) have "\<forall>a \<in> set (updateOne_inc as u dlt). 0 \<le> balance a"
      by simp
    then show ?thesis using False Cons.prems(1) by simp
  qed
qed

lemma findOne_account_in_set:
  "findOne_account as u = Some a \<Longrightarrow> a \<in> set as \<and> userId a = u"
  unfolding findOne_account_def by (induction as) (auto split: if_splits)

lemma transfer_nonneg:
  assumes "nonneg_balances d"
  shows "nonneg_balances (snd (transfer env u b d))"
proof (cases "succeeded (fst (transfer env u b d))")
  case False
  then show ?thesis using assms transfer_unsuccessful_unchanged [of env u b d] by simp
next
  case True
  from transfer_success [OF True] obtain v f t sender where
    v: "transferBody b = Inr v" and
    s: "findOne_account (accounts d) f = Some sender" and
    bal: "data_amount v \<le> balance sender" and
    res: "snd (transfer env u b d) = committed env f t v d"
    by blast
  from transferBody_Inr [OF v] have pos: "0 < data_amount v" by simp
  have all: "\<forall>a \<in> set (accounts d). 0 \<le> balance a"
    using assms by (simp add: nonneg_balances_def)
  have 1: "\<forall>a \<in> set (updateOne_inc (accounts d) f (- data_amount v)). 0 \<le> balance a"
    using all s bal by (intro updateOne_inc_nonneg) auto
  have 2: "\<forall>a \<in> set (updateOne_inc (updateOne_inc (accounts d) f (- data_amount v))
                 t (data_amount v)). 0 \<le> balance a"
  proof (rule updateOne_inc_nonneg [OF 1])
    fix a
    assume "findOne_account (updateOne_inc (accounts d) f (- data_amount v)) t = Some a"
    then have "a \<in> set (updateOne_inc (accounts d) f (- data_amount v))"
      by (simp add: findOne_account_in_set)
    with 1 have "0 \<le> balance a" by blast
    with pos show "0 \<le> balance a + data_amount v" by linarith
  qed
  show ?thesis unfolding res nonneg_balances_def committed_def using 2 by simp
qed

lemma signup_accounts:
  "accounts (snd (signup env body d)) = accounts d \<or>
   accounts (snd (signup env body d)) =
     accounts d @ [\<lparr>userId = new_user_id env,
                    balance = js_add 1000 (js_mul (random env) 9000)\<rparr>]"
  unfolding signup_def
  by (simp add: Let_def split: sum.splits option.splits)

lemma signup_nonneg:
  assumes "nonneg_balances d" "0 \<le> random env"
  shows "nonneg_balances (snd (signup env body d))"
proof -
  have "0 \<le> js_mul (random env) 9000"
    using assms(2) by (simp add: js_mul_def fl_nonneg)
  then have "0 \<le> js_add 1000 (js_mul (random env) 9000)"
    by (simp add: js_add_def fl_nonneg)
  then show ?thesis
    using assms(1) signup_accounts [of env body d] by (auto simp: nonneg_balances_def)
qed

lemma step_nonneg:
  assumes "nonneg_balances d" "request_ok r"
  shows "nonneg_balances (step r d)"
  using assms by (cases r) (simp_all add: transfer_nonneg signup_nonneg)

lemma run_nonneg:
  assumes "nonneg_balances d" "\<forall>r \<in> set rs. request_ok r"
  shows "nonneg_balances (run rs d)"
  using assms unfolding run_def
  by (induction rs arbitrary: d) (simp_all add: step_nonneg)

lemma transfer_insufficient:
  assumes "cast_id env u = Some s" "findOne_account (accounts d) s = Some a"
    and "body_amount b = JNum n" "balance a < n"
  shows "error_of (fst (transfer env u b d)) \<noteq> None"
proof
  assume "error_of (fst (transfer env u b d)) = None"
  from transfer_reaches_commit [OF this] obtain v f sender where
    v: "transferBody b = Inr v" and
    c: "cast_id env u = Some f" and
    s: "findOne_account (accounts d) f = Some sender" and
    bal: "data_amount v \<le> balance sender"
    by blast
  from transferBody_Inr [OF v] assms(3) have "data_amount v = n" by simp
  with assms(1,2,4) c s bal show False by simp
qed

lemma transfer_insufficient_response:
  assumes "cast_id env u = Some s" "findOne_account (accounts d) s = Some a"
    and "balance a < data_amount v"
    and "transferBody b = Inr v" "data_to v \<noteq> u" "\<not> throws env FindSender"
  shows "fst (transfer env u b d) = InsufficientBalance"
  using assms by (simp add: transfer_def Let_def startTransaction_def op_id_def)

lemma transfer_sender_rejects:
  assumes "transferBody b = Inr v" "data_to v \<noteq> u" "throws env FindSender"
  shows "fst (transfer env u b d) = TransferFailedTryAgain"
  using assms by (simp add: transfer_def Let_def startTransaction_def op_id_def)

lemmas run_eval = run_def step.simps request_ok.simps nonneg_balances_def is_double_def

text \<open>
  Claim C2, as stated, ends: a transfer whose amount exceeds the sender's balance is
  rejected with InsufficientFunds. Not always: an amount above the ceiling is rejected
  by validation, with InvalidRequest, before the balance is read.
\<close>

theorem amount_above_ceiling_counterexample:
  "findOne_account (accounts (two_accounts 1000 500)) alice = Some \<lparr>userId = alice, balance = 1000\<rparr> \<and>
   body_amount (send bob 200000) = JNum 200000 \<and> (1000 :: rat) < 200000 \<and>
   error_of (fst (transfer env0 alice (send bob 200000) (two_accounts 1000 500))) = Some InvalidRequest \<and>
   error_of (fst (transfer env0 alice (send bob 200000) (two_accounts 1000 500))) \<noteq> Some InsufficientFunds"
  by (simp add: transfer_eval)

text \<open>
  Claim C2, amended. From a store in which every balance is non-negative, every run of
  requests (signups, transfers, balance and history reads, with \<open>Math.random()\<close> in
  \<open>[0, 1)\<close>) leads to a store in which every balance is non-negative. A transfer whose
  amount exceeds the sender's balance never succeeds and leaves the store as it was;
  it is rejected with InsufficientFunds when the request passes validation, is not
  addressed to the sender, and the store answers the sender's lookup; otherwise with
  InvalidRequest, SelfTransfer or TransferFailed, in that order. The sender's account is
  the one the store finds for the cast of the sender's id.
\<close>

theorem balances_stay_nonneg:
  assumes "nonneg_balances d" and "\<forall>r \<in> set rs. request_ok r"
  shows "nonneg_balances (run rs d) \<and>
         (\<forall>env u b s a n.
            cast_id env u = Some s \<and> findOne_account (accounts d) s = Some a \<and>
            body_amount b = JNum n \<and> balance a < n \<longrightarrow>
              error_of (fst (transfer env u b d)) \<noteq> None \<and> snd (transfer env u b d) = d \<and>
              (\<forall>v. transferBody b = Inr v \<and> data_to v \<noteq> u \<and> \<not> throws env FindSender \<longrightarrow>
                 error_of (fst (transfer env u b d)) = Some InsufficientFunds) \<and>
              (\<forall>issues. transferBody b = Inl issues \<longrightarrow>
                 error_of (fst (transfer env u b d)) = Some InvalidRequest) \<and>
              (\<forall>v. transferBody b = Inr v \<and> data_to v = u \<longrightarrow>
                 error_of (fst (transfer env u b d)) = Some SelfTransfer) \<and>
              (\<forall>v. transferBody b = Inr v \<and> data_to v \<noteq> u \<and> throws env FindSender \<longrightarrow>
                 error_of (fst (transfer env u b d)) = Some TransferFailed))"
proof (intro conjI allI impI)
  show "nonneg_balances (run rs d)" using assms by (rule run_nonneg)
next
  fix env :: transfer_env and u and b :: transfer_body and s a n
  assume h: "cast_id env u = Some s \<and> findOne_account (accounts d) s = Some a \<and>
             body_amount b = JNum n \<and> balance a < n"
  then show e: "error_of (fst (transfer env u b d)) \<noteq> None"
    using transfer_insufficient by blast
  then show "snd (transfer env u b d) = d" by (rule transfer_failure_unchanged)
  {
    fix v
    assume v: "transferBody b = Inr v \<and> data_to v \<noteq> u \<and> \<not> throws env FindSender"
    with h transferBody_Inr [of b v] have "balance a < data_amount v" by simp
    with h v have "fst (transfer env u b d) = InsufficientBalance"
      using transfer_insufficient_response by blast
    then show "error_of (fst (transfer env u b d)) = Some InsufficientFunds" by simp
  }
  {
    fix issues
    assume "transferBody b = Inl issues"
    then show "error_of (fst (transfer env u b d)) = Some InvalidRequest"
      by (simp add: transfer_validation_fails)
  }
  {
    fix v
    assume "transferBody b = Inr v \<and> data_to v = u"
    then show "error_of (fst (transfer env u b d)) = Some SelfTransfer"
      by (simp add: transfer_self)
  }
  {
    fix v
    assume "transferBody b = Inr v \<and> data_to v \<noteq> u \<and> throws env FindSender"
    then have "fst (transfer env u b d) = TransferFailedTryAgain"
      using transfer_sender_rejects by blast
    then show "error_of (fst (transfer env u b d)) = Some TransferFailed" by simp
  }
qed

theorem balances_stay_nonneg_witness:
  "nonneg_balances (two_accounts 1000 500) \<and>
   request_ok (Transfer env0 alice (send bob 300)) \<and>
   nonneg_balances (run [Transfer env0 alice (send bob 300)] (two_accounts 1000 500)) \<and>
   cast_id env0 alice = Some alice \<and>
   findOne_account (accounts (two_accounts 1000 500)) alice = Some \<lparr>userId = alice, balance = 1000\<rparr> \<and>
   error_of (fst (transfer env0 alice (send bob 1500) (two_accounts 1000 500))) = Some InsufficientFunds"
proof -
  have h1: "nonneg_balances (two_accounts 1000 500)"
    by (simp add: nonneg_balances_def two_accounts_def)
  have ok: "request_ok (Transfer env0 alice (send bob 300))"
    by simp
  then have h2: "\<forall>r \<in> set [Transfer env0 alice (send bob 300)]. request_ok r" by simp
  have c: "cast_id env0 alice = Some alice"
    by (simp add: transfer_eval)
  have a: "findOne_account (accounts (two_accounts 1000 500)) alice = Some \<lparr>userId = alice, balance = 1000\<rparr>"
    by (simp add: transfer_eval)
  have b: "body_amount (send bob 1500) = JNum 1500" by (simp add: send_def)
  have v: "transferBody (send bob 1500) = Inr \<lparr>data_to = bob, data_amount = 1500, data_description = None\<rparr>"
    by (simp add: transfer_eval)
  have n: "data_to \<lparr>data_to = bob, data_amount = 1500, data_description = None\<rparr> \<noteq> alice"
    by (simp add: alice_def bob_def)
  have f: "\<not> throws env0 FindSender" by (simp add: env0_def no_fault_def)
  from balances_stay_nonneg [OF h1 h2] c a b v n f h1 ok show ?thesis by fastforce
qed

lemma transfer_log:
  "transactions (snd (transfer env u b d)) = transactions d \<or>
   (\<exists>t. transactions (snd (transfer env u b d)) = transactions d @ [t] \<and> status t = completed)"
proof (cases "succeeded (fst (transfer env u b d))")
  case False
  then show ?thesis using transfer_unsuccessful_unchanged [of env u b d] by simp
next
  case True
  from transfer_success [OF True] obtain v f t where
    "snd (transfer env u b d) = committed env f t v d" by blast
  then show ?thesis by (simp add: committed_def)
qed

lemma signup_log: "transactions (snd (signup env body d)) = transactions d"
  unfolding signup_def by (simp add: Let_def split: sum.splits option.splits)

lemma step_completed:
  assumes "\<forall>t \<in> set (transactions d). status t = completed"
  shows "\<forall>t \<in> set (transactions (step r d)). status t = completed"
proof (cases r)
  case (Transfer env u b)
  then show ?thesis using assms transfer_log [of env u b d] by auto
qed (use assms in \<open>simp_all add: signup_log\<close>)

lemma run_completed:
  assumes "\<forall>t \<in> set (transactions d). status t = completed"
  shows "\<forall>t \<in> set (transactions (run rs d)). status t = completed"
  using assms unfolding run_def
proof (induction rs arbitrary: d)
  case Nil
  then show ?case by simp
next
  case (Cons r rs)
  from step_completed [OF Cons.prems] have "\<forall>t \<in> set (transactions (step r d)). status t = completed" .
  from Cons.IH [OF this] show ?case by simp
qed

text \<open>
  Claim C9. Every record in the transaction log has the status \<open>completed\<close>: a run of
  requests from a store whose log holds only completed records (the empty store, for
  one) never adds a record of another status, and a transfer that fails leaves the log
  as it was.
\<close>

theorem log_holds_only_completed:
  assumes "\<forall>t \<in> set (transactions d). status t = completed"
  shows "(\<forall>t \<in> set (transactions (run rs d)). status t = completed) \<and>
         (\<forall>env u b d' e. error_of (fst (transfer env u b d')) = Some e \<longrightarrow>
            transactions (snd (transfer env u b d')) = transactions d')"
proof
  show "\<forall>t \<in> set (transactions (run rs d)). status t = completed"
    using assms by (rule run_completed)
  show "\<forall>env u b d' e. error_of (fst (transfer env u b d')) = Some e \<longrightarrow>
          transactions (snd (transfer env u b d')) = transactions d'"
    using transfer_failure_unchanged by (metis option.distinct(1))
qed

theorem log_holds_only_completed_witness:
  "transactions (two_accounts 1000 500) = [] \<and>
   length (transactions (run [Transfer env0 alice (send bob 300)] (two_accounts 1000 500))) = 1 \<and>
   status (hd (transactions (run [Transfer env0 alice (send bob 300)] (two_accounts 1000 500)))) = completed"
proof -
  have h: "\<forall>t \<in> set (transactions (two_accounts 1000 500)). status t = completed"
    by (simp add: two_accounts_def)
  have l: "transactions (run [Transfer env0 alice (send bob 300)] (two_accounts 1000 500)) =
             [\<lparr>txn_id = [0x74], fromUserId = alice, toUserId = bob, amount = 300, status = completed,
               description = [], createdAt = 0\<rparr>]"
    by (simp add: run_def transfer_eval fl_eval)
  from log_holds_only_completed [OF h, of "[Transfer env0 alice (send bob 300)]"] l
  show ?thesis by (simp add: two_accounts_def)
qed

section \<open>Transaction history\<close>

lemma those_opt_map:
  assumes "\<forall>x \<in> set xs. f x \<noteq> None"
  shows "those_opt (map f xs) = Some (map (\<lambda>x. the (f x)) xs)"
  using assms by (induction xs) auto

lemma format_tx_fields:
  assumes "format_tx us u t = Some w"
  shows "view_id w = txn_id t \<and> view_amount w = amount t \<and> view_status w = status t \<and>
         view_date w = createdAt t \<and> view_description w = description t \<and>
         (view_type w = sent \<longleftrightarrow> fromUserId t = u)"
proof -
  have id: "user_id fu = fromUserId t" if "findById_user us (fromUserId t) = Some fu" for fu
    using that unfolding findById_user_def by (metis (mono_tags, lifting) find_Some_iff)
  show ?thesis
    using assms id unfolding format_tx_def
    by (auto split: option.splits if_splits)
qed

lemma format_tx_populated:
  assumes "findById_user us (fromUserId t) \<noteq> None" "findById_user us (toUserId t) \<noteq> None"
  shows "format_tx us u t \<noteq> None"
  using assms unfolding format_tx_def by (auto split: option.splits)

lemma newest_first_mset: "mset (newest_first ts) = mset ts"
  by (simp add: newest_first_def)

lemma newest_first_sorted: "sorted_wrt (\<lambda>a b. createdAt b \<le> createdAt a) (newest_first ts)"
proof -
  have "sorted (map (\<lambda>t. - createdAt t) (newest_first ts))"
    unfolding newest_first_def by (rule sorted_sort_key)
  then show ?thesis by (simp add: sorted_map)
qed

lemma sorted_wrt_take_drop:
  "sorted_wrt P xs \<Longrightarrow> sorted_wrt P (take n (drop k xs))"
  by (simp add: sorted_wrt_drop sorted_wrt_take)

lemma ceiling_pages:
  assumes "1 \<le> (l :: int)"
  shows "(\<lceil>(of_nat n :: rat) / of_int l\<rceil> - 1) * l < int n \<and> int n \<le> \<lceil>(of_nat n :: rat) / of_int l\<rceil> * l"
proof -
  define q where "q = (of_nat n :: rat) / of_int l"
  have lpos: "(0 :: rat) < of_int l" using assms by simp
  have n: "(of_nat n :: rat) = q * of_int l" using lpos by (simp add: q_def)
  have 1: "of_int (\<lceil>q\<rceil> - 1) < q" using ceiling_correct [of q] by simp
  have 2: "q \<le> of_int \<lceil>q\<rceil>" by (rule le_of_int_ceiling)
  from 1 lpos have "of_int (\<lceil>q\<rceil> - 1) * of_int l < q * (of_int l :: rat)"
    by (simp add: mult_strict_right_mono)
  then have "(of_int ((\<lceil>q\<rceil> - 1) * l) :: rat) < of_int (int n)" using n by simp
  then have a: "(\<lceil>q\<rceil> - 1) * l < int n" by (simp only: of_int_less_iff)
  from 2 lpos have "q * of_int l \<le> of_int \<lceil>q\<rceil> * (of_int l :: rat)"
    by (simp add: mult_right_mono)
  then have "(of_int (int n) :: rat) \<le> of_int (\<lceil>q\<rceil> * l)" using n by simp
  then have b: "int n \<le> \<lceil>q\<rceil> * l" by (simp only: of_int_le_iff)
  from a b show ?thesis by (simp add: q_def)
qed

lemmas history_eval =
  getTransactions_def transactions_page_def skip_limit_def newest_first_def or_default_def
  involves_def format_tx_def findById_user_def full_name_def history_db_def sample_tx_def
  sample_view_def two_accounts_def person_def alice_def bob_def Let_def populated_def
  ceiling_rat_numeral_div read_id_def read0_def hex_cast_def is_hex_digit_def lower_hex_def

text \<open>
  Claim C8, as stated, holds for every page and page size. It does not for a page size
  of 0: \<open>parseInt(req.query.limit) || 10\<close> puts 10 in its place, so the request for
  pages of no record gets every matching record, three here, and a page count of 1.
\<close>

theorem history_page_size_zero_counterexample:
  "getTransactions read0 alice (Some 1) (Some 0) history_db =
     History [sample_view [2] 20 received 9, sample_view [3] 30 sent 7, sample_view [1] 10 sent 5]
       \<lparr>pg_page = 1, pg_limit = 10, pg_total = 3, pg_pages = 1\<rparr>"
  by (simp add: history_eval)

text \<open>
  Claim C8, amended. The page in force is the requested page when that is \<open>\<ge> 1\<close>, and 1
  when the parameter is absent, not a number or 0; the page size in force is the
  requested size when that is \<open>\<ge> 1\<close>, and 10 when the parameter is absent, not a number
  or 0. For every user whose id the store casts, on a store that answers and whose
  records name users it holds, the history query answers; the matching records, newest
  first, are a rearrangement of the records in which the user is sender or recipient;
  the answer holds the records left after skipping \<open>(page - 1) * limit\<close> of them, at most
  \<open>limit\<close>, in that order; the reported page and page size are those in force, the
  reported total is the number of matching records and the reported page count is
  \<open>\<lceil>total / limit\<rceil>\<close>.
\<close>

theorem history_page:
  assumes "(q_page = Some page \<and> 1 \<le> page) \<or> ((q_page = None \<or> q_page = Some 0) \<and> page = 1)"
    and "(q_limit = Some limit \<and> 1 \<le> limit) \<or>
         ((q_limit = None \<or> q_limit = Some 0) \<and> limit = 10)"
    and "populated d" and "\<not> rejects env" and "read_cast env u = Some uid"
  shows "\<exists>views pg sel.
           getTransactions env u q_page q_limit d = History views pg \<and>
           sel = take (nat limit) (drop (nat ((page - 1) * limit))
                   (newest_first (filter (involves uid) (transactions d)))) \<and>
           mset (newest_first (filter (involves uid) (transactions d))) =
             filter_mset (involves uid) (mset (transactions d)) \<and>
           sorted_wrt (\<lambda>a b. createdAt b \<le> createdAt a)
             (newest_first (filter (involves uid) (transactions d))) \<and>
           (\<forall>t \<in> set sel. t \<in> set (transactions d) \<and> involves uid t) \<and>
           sorted_wrt (\<lambda>a b. createdAt b \<le> createdAt a) sel \<and>
           length sel \<le> nat limit \<and>
           map view_id views = map txn_id sel \<and> map view_amount views = map amount sel \<and>
           map view_date views = map createdAt sel \<and>
           pg_page pg = page \<and> pg_limit pg = limit \<and>
           pg_total pg = length (filter (involves uid) (transactions d)) \<and>
           pg_pages pg = \<lceil>(of_nat (pg_total pg) :: rat) / of_int limit\<rceil> \<and>
           (pg_pages pg - 1) * limit < int (pg_total pg) \<and>
           int (pg_total pg) \<le> pg_pages pg * limit"
proof -
  define all where "all = newest_first (filter (involves uid) (transactions d))"
  define sel where "sel = take (nat limit) (drop (nat ((page - 1) * limit)) all)"
  define total where "total = length (filter (involves uid) (transactions d))"
  define views where "views = map (\<lambda>t. the (format_tx (users d) u t)) sel"
  define pg where "pg = \<lparr>pg_page = page, pg_limit = limit, pg_total = total,
                           pg_pages = \<lceil>(of_nat total :: rat) / of_int limit\<rceil>\<rparr>"
  have page1: "1 \<le> page" using assms(1) by auto
  have limit1: "1 \<le> limit" using assms(2) by auto
  have dp: "or_default q_page 1 = page"
    using assms(1) by (auto simp: or_default_def)
  have dl: "or_default q_limit 10 = limit"
    using assms(2) by (auto simp: or_default_def)
  have rid: "read_id env u = Some uid"
    using assms(4,5) by (simp add: read_id_def)
  have skip: "0 \<le> (page - 1) * limit" using page1 limit1 by simp
  have lim: "limit \<noteq> 0" "\<bar>limit\<bar> = limit" using limit1 by simp_all
  have page_sel: "transactions_page (transactions d) uid page limit = Some sel"
    using skip lim by (simp add: transactions_page_def skip_limit_def sel_def all_def)
  have set_all: "set all = {t \<in> set (transactions d). involves uid t}"
    using newest_first_mset [of "filter (involves uid) (transactions d)"]
    by (metis all_def mset_eq_setD set_filter)
  have sub: "set sel \<subseteq> set all"
    unfolding sel_def by (meson set_take_subset set_drop_subset subset_trans)
  have mem: "\<forall>t \<in> set sel. t \<in> set (transactions d) \<and> involves uid t"
    using sub set_all by auto
  have fm: "\<forall>t \<in> set sel. format_tx (users d) u t \<noteq> None"
  proof
    fix t
    assume "t \<in> set sel"
    with mem have "t \<in> set (transactions d)" by blast
    with assms(3) have "findById_user (users d) (fromUserId t) \<noteq> None"
      "findById_user (users d) (toUserId t) \<noteq> None"
      unfolding populated_def by blast+
    then show "format_tx (users d) u t \<noteq> None" by (rule format_tx_populated)
  qed
  then have th: "those_opt (map (format_tx (users d) u) sel) = Some views"
    unfolding views_def by (rule those_opt_map)
  have resp: "getTransactions env u q_page q_limit d = History views pg"
    using page_sel th rid dp dl
    by (simp add: getTransactions_def Let_def pg_def total_def)
  have vf: "view_id (the (format_tx (users d) u t)) = txn_id t \<and>
            view_amount (the (format_tx (users d) u t)) = amount t \<and>
            view_date (the (format_tx (users d) u t)) = createdAt t" if "t \<in> set sel" for t
  proof -
    from fm that obtain w where w: "format_tx (users d) u t = Some w" by blast
    from format_tx_fields [OF w] w show ?thesis by simp
  qed
  have v1: "map view_id views = map txn_id sel"
    unfolding views_def using vf by simp
  have v2: "map view_amount views = map amount sel"
    unfolding views_def using vf by simp
  have v3: "map view_date views = map createdAt sel"
    unfolding views_def using vf by simp
  have sorted_all: "sorted_wrt (\<lambda>a b. createdAt b \<le> createdAt a) all"
    unfolding all_def by (rule newest_first_sorted)
  then have sorted_sel: "sorted_wrt (\<lambda>a b. createdAt b \<le> createdAt a) sel"
    unfolding sel_def by (rule sorted_wrt_take_drop)
  have len: "length sel \<le> nat limit" unfolding sel_def by simp
  have ms: "mset all = filter_mset (involves uid) (mset (transactions d))"
    unfolding all_def by (simp add: newest_first_mset)
  have pages: "(pg_pages pg - 1) * limit < int (pg_total pg) \<and> int (pg_total pg) \<le> pg_pages pg * limit"
    using ceiling_pages [OF limit1, of total] by (simp add: pg_def)
  have p1: "pg_page pg = page" "pg_limit pg = limit"
    "pg_total pg = length (filter (involves uid) (transactions d))"
    "pg_pages pg = \<lceil>(of_nat (pg_total pg) :: rat) / of_int limit\<rceil>"
    by (simp_all add: pg_def total_def)
  have seldef: "sel = take (nat limit) (drop (nat ((page - 1) * limit))
                   (newest_first (filter (involves uid) (transactions d))))"
    by (simp only: sel_def all_def)
  from resp seldef ms [unfolded all_def] sorted_all [unfolded all_def] mem sorted_sel len
    v1 v2 v3 p1 pages
  show ?thesis by blast
qed

theorem history_page_witness:
  "populated history_db \<and> \<not> rejects read0 \<and> read_cast read0 alice = Some alice \<and>
   getTransactions read0 alice (Some 2) (Some 2) history_db =
     History [sample_view [1] 10 sent 5]
       \<lparr>pg_page = 2, pg_limit = 2, pg_total = 3, pg_pages = 2\<rparr> \<and>
   getTransactions read0 alice None None history_db =
     History [sample_view [2] 20 received 9, sample_view [3] 30 sent 7, sample_view [1] 10 sent 5]
       \<lparr>pg_page = 1, pg_limit = 10, pg_total = 3, pg_pages = 1\<rparr>"
proof -
  have h2: "(Some 2 = Some (2 :: int) \<and> 1 \<le> (2 :: int)) \<or>
            ((Some (2 :: int) = None \<or> Some (2 :: int) = Some 0) \<and> (2 :: int) = 1)"
    by simp
  have l2: "(Some 2 = Some (2 :: int) \<and> 1 \<le> (2 :: int)) \<or>
            ((Some (2 :: int) = None \<or> Some (2 :: int) = Some 0) \<and> (2 :: int) = 10)"
    by simp
  have hn: "((None :: int option) = Some 1 \<and> 1 \<le> (1 :: int)) \<or>
            (((None :: int option) = None \<or> (None :: int option) = Some 0) \<and> (1 :: int) = 1)"
    by simp
  have ln: "((None :: int option) = Some 10 \<and> 1 \<le> (10 :: int)) \<or>
            (((None :: int option) = None \<or> (None :: int option) = Some 0) \<and> (10 :: int) = 10)"
    by simp
  have p: "populated history_db" by (simp add: history_eval)
  have e: "\<not> rejects read0" by (simp add: read0_def)
  have c: "read_cast read0 alice = Some alice" by (simp add: history_eval)
  have r: "getTransactions read0 alice (Some 2) (Some 2) history_db =
     History [sample_view [1] 10 sent 5]
       \<lparr>pg_page = 2, pg_limit = 2, pg_total = 3, pg_pages = 2\<rparr>"
    by (simp add: history_eval)
  have n: "getTransactions read0 alice None None history_db =
     History [sample_view [2] 20 received 9, sample_view [3] 30 sent 7, sample_view [1] 10 sent 5]
       \<lparr>pg_page = 1, pg_limit = 10, pg_total = 3, pg_pages = 1\<rparr>"
    by (simp add: history_eval)
  have a1: "\<exists>views pg. getTransactions read0 alice (Some 2) (Some 2) history_db = History views pg"
    using history_page [OF h2 l2 p e c] by blast
  have a2: "\<exists>views pg. getTransactions read0 alice None None history_db = History views pg"
    using history_page [OF hn ln p e c] by blast
  from a1 a2 r n p e c show ?thesis by simp
qed

section \<open>Binary64 values\<close>

lemma ulp_exp_pos:
  assumes "0 < x"
  shows "ulp_exp x = max (- 1074) (ilog2 x - 52)"
  using assms by (simp add: ulp_exp_def)

lemma pow2_int_quot:
  assumes "g \<le> e"
  shows "pow2 e / pow2 g = of_int (2 ^ nat (e - g))"
proof -
  have "pow2 e / pow2 g = pow2 (e - g)" by (simp add: pow2_diff)
  also have "\<dots> = of_int (2 ^ nat (e - g))" using assms by (simp add: pow2_nonneg_exp)
  finally show ?thesis .
qed

lemma fl_representable_pos:
  assumes "0 < m" "m \<le> 2 ^ 53" "- 1074 \<le> e"
  shows "fl (of_int m * pow2 e) = of_int m * pow2 e"
proof -
  define x where "x = of_int m * pow2 e"
  have xpos: "0 < x" using assms(1) by (simp add: x_def)
  have p53: "pow2 53 = of_int (2 ^ 53)" by (simp add: pow2_def)
  show ?thesis
  proof (cases "m = 2 ^ 53")
    case True
    have xe: "x = pow2 (e + 53)"
      unfolding x_def True pow2_add p53 by simp
    have "ilog2 x = e + 53"
      using xpos by (rule ilog2_unique) (simp_all add: xe pow2_strict_mono)
    then have g: "ulp_exp x = e + 1"
      using assms(3) by (simp add: ulp_exp_pos [OF xpos])
    have "x / pow2 (ulp_exp x) = x / pow2 (e + 1)" by (simp only: g)
    also have "\<dots> = pow2 (e + 53) / pow2 (e + 1)" by (simp only: xe)
    also have "\<dots> = of_int (2 ^ nat 52)"
      using pow2_int_quot [of "e + 1" "e + 53"] by simp
    finally have "fl x = x" by (rule fl_on_grid)
    then show ?thesis by (simp add: x_def)
  next
    case False
    with assms(2) have "m < 2 ^ 53" by simp
    then have "(of_int m :: rat) < of_int (2 ^ 53)" by (simp only: of_int_less_iff)
    then have "x < pow2 53 * pow2 e"
      unfolding x_def p53 by (simp add: mult_strict_right_mono)
    then have xlt: "x < pow2 (53 + e)" by (simp add: pow2_add)
    have "pow2 (ilog2 x) < pow2 (53 + e)"
      using ilog2_bounds [OF xpos] xlt by linarith
    then have "ilog2 x < 53 + e" by (rule pow2_less_cancel)
    then have g: "ulp_exp x \<le> e"
      using assms(3) by (simp add: ulp_exp_pos [OF xpos])
    have "x / pow2 (ulp_exp x) = of_int m * (pow2 e / pow2 (ulp_exp x))"
      by (simp add: x_def)
    also have "\<dots> = of_int (m * 2 ^ nat (e - ulp_exp x))"
      using pow2_int_quot [OF g] by simp
    finally have "fl x = x" by (rule fl_on_grid)
    then show ?thesis by (simp add: x_def)
  qed
qed

lemma fl_representable:
  assumes "\<bar>m\<bar> \<le> 2 ^ 53" "- 1074 \<le> e"
  shows "fl (of_int m * pow2 e) = of_int m * pow2 e"
proof -
  consider "0 < m" | "m = 0" | "m < 0" by linarith
  then show ?thesis
  proof cases
    case 1
    then show ?thesis using assms by (intro fl_representable_pos) auto
  next
    case 2
    then show ?thesis by simp
  next
    case 3
    then have "fl (of_int (- m) * pow2 e) = of_int (- m) * pow2 e"
      using assms by (intro fl_representable_pos) auto
    then have "fl (- (of_int m * pow2 e)) = - (of_int m * pow2 e)" by simp
    then show ?thesis by (simp add: fl_minus)
  qed
qed

lemma fl_of_int:
  assumes "\<bar>n\<bar> \<le> 2 ^ 53"
  shows "fl (of_int n) = of_int n"
  using fl_representable [OF assms, of 0] by simp

lemma round_quotient_le:
  assumes "0 < x"
  shows "round_half_even (x / pow2 (ulp_exp x)) \<le> 2 ^ 53"
proof -
  have "ilog2 x - 52 \<le> ulp_exp x" by (simp add: ulp_exp_pos [OF assms])
  then have "ilog2 x + 1 \<le> ulp_exp x + 53" by simp
  then have "pow2 (ilog2 x + 1) \<le> pow2 (ulp_exp x + 53)" by (rule pow2_mono)
  with ilog2_bounds [OF assms] have "x \<le> pow2 (ulp_exp x + 53)" by linarith
  then have "x / pow2 (ulp_exp x) \<le> pow2 (ulp_exp x + 53) / pow2 (ulp_exp x)"
    by (simp add: divide_right_mono)
  also have "\<dots> = of_int (2 ^ 53)"
    using pow2_int_quot [of "ulp_exp x" "ulp_exp x + 53"] by simp
  finally show ?thesis by (rule round_half_even_le_int)
qed

lemma fl_idem_pos:
  assumes "0 < x"
  shows "fl (fl x) = fl x"
proof -
  define m where "m = round_half_even (x / pow2 (ulp_exp x))"
  have m0: "0 \<le> m" unfolding m_def using assms by (intro round_half_even_nonneg) simp
  have m1: "m \<le> 2 ^ 53" unfolding m_def using assms by (rule round_quotient_le)
  have "fl x = of_int m * pow2 (ulp_exp x)" by (simp add: fl_def m_def)
  moreover have "fl (of_int m * pow2 (ulp_exp x)) = of_int m * pow2 (ulp_exp x)"
    using m0 m1 ulp_exp_ge [of x] by (intro fl_representable) auto
  ultimately show ?thesis by simp
qed

lemma fl_idem: "fl (fl x) = fl x"
proof -
  consider "0 < x" | "x = 0" | "x < 0" by linarith
  then show ?thesis
  proof cases
    case 1
    then show ?thesis by (rule fl_idem_pos)
  next
    case 2
    then show ?thesis by simp
  next
    case 3
    then have "fl (fl (- x)) = fl (- x)" by (intro fl_idem_pos) simp
    then show ?thesis by (simp add: fl_minus)
  qed
qed

lemma fixpoint_on_grid:
  assumes "fl b = b"
  shows "b = of_int (round_half_even (b / pow2 (ulp_exp b))) * pow2 (ulp_exp b)"
  using assms by (simp add: fl_def)

lemma grid_below:
  assumes "b = of_int m * pow2 g" "b < of_int n * pow2 g"
  shows "b \<le> of_int (n - 1) * pow2 g"
proof -
  from assms have "of_int m * pow2 g < of_int n * pow2 g" by simp
  then have "(of_int m :: rat) < of_int n" by (simp add: mult_less_cancel_right)
  then have "m \<le> n - 1" by simp
  then have "(of_int m :: rat) \<le> of_int (n - 1)" by (simp only: of_int_le_iff)
  then show ?thesis unfolding assms(1) by (simp add: mult_right_mono)
qed

lemma double_le_max:
  assumes "fl b = b" "0 \<le> b" "b < 2 ^ 1024"
  shows "b \<le> 2 ^ 1024 - 2 ^ 971"
proof (cases "b < 2 ^ 1023")
  case True
  then show ?thesis by simp
next
  case False
  then have lo: "pow2 1023 \<le> b" by (simp add: pow2_def)
  have hi: "b < pow2 (1023 + 1)" using assms(3) by (simp add: pow2_def)
  have bpos: "0 < b" using lo pow2_pos [of 1023] by linarith
  have "ilog2 b = 1023" using bpos lo hi by (rule ilog2_unique)
  then have g: "ulp_exp b = 971" by (simp add: ulp_exp_pos [OF bpos])
  from fixpoint_on_grid [OF assms(1)]
  have grid: "b = of_int (round_half_even (b / pow2 971)) * pow2 971" by (simp add: g)
  have "b < of_int (2 ^ 53) * pow2 971" using assms(3) by (simp add: pow2_def)
  with grid have "b \<le> of_int (2 ^ 53 - 1) * pow2 971" by (rule grid_below)
  then show ?thesis by (simp add: pow2_def)
qed

lemma random_le:
  assumes "is_double r" "0 \<le> r" "r < 1"
  shows "r \<le> 1 - 1 / 2 ^ 53"
proof (cases "r < 1 / 2")
  case True
  then show ?thesis by simp
next
  case False
  then have lo: "pow2 (- 1) \<le> r" by (simp add: pow2_def)
  have hi: "r < pow2 (- 1 + 1)" using assms(3) by simp
  have rpos: "0 < r" using lo pow2_pos [of "- 1"] by linarith
  have "ilog2 r = - 1" using rpos lo hi by (rule ilog2_unique)
  then have g: "ulp_exp r = - 53" by (simp add: ulp_exp_pos [OF rpos])
  have fp: "fl r = r" using assms(1) by (simp add: is_double_def)
  from fixpoint_on_grid [OF fp]
  have grid: "r = of_int (round_half_even (r / pow2 (- 53))) * pow2 (- 53)" by (simp add: g)
  have "r < of_int (2 ^ 53) * pow2 (- 53)" using assms(3) by (simp add: pow2_def)
  with grid have "r \<le> of_int (2 ^ 53 - 1) * pow2 (- 53)" by (rule grid_below)
  then show ?thesis by (simp add: pow2_def)
qed

lemma seed_product_bounds:
  assumes "is_double r" "0 \<le> r" "r < 1"
  shows "0 \<le> js_mul r 9000 \<and> js_mul r 9000 \<le> 9000 - 1 / 2 ^ 39"
proof -
  have "r * 9000 \<le> 9000 * (1 - 1 / 2 ^ 53)" using random_le [OF assms] by simp
  then have "fl (r * 9000) \<le> fl (9000 * (1 - 1 / 2 ^ 53))" by (rule fl_mono)
  also have "\<dots> = 9000 - 1 / 2 ^ 39" by (simp add: fl_eval)
  finally have "js_mul r 9000 \<le> 9000 - 1 / 2 ^ 39" by (simp add: js_mul_def)
  moreover have "0 \<le> js_mul r 9000" using assms(2) by (simp add: js_mul_def fl_nonneg)
  ultimately show ?thesis by simp
qed

lemma seed_bounds:
  assumes "is_double r" "0 \<le> r" "r < 1"
  shows "1000 \<le> js_add 1000 (js_mul r 9000) \<and> js_add 1000 (js_mul r 9000) \<le> 10000 - 1 / 2 ^ 39"
proof -
  from seed_product_bounds [OF assms]
  have y: "0 \<le> js_mul r 9000" "js_mul r 9000 \<le> 9000 - 1 / 2 ^ 39" by auto
  have "fl 1000 \<le> fl (1000 + js_mul r 9000)" using y(1) by (intro fl_mono) simp
  moreover have "fl 1000 = 1000" by (simp add: fl_eval)
  ultimately have lo: "1000 \<le> js_add 1000 (js_mul r 9000)" by (simp add: js_add_def)
  have "fl (1000 + js_mul r 9000) \<le> fl (1000 + (9000 - 1 / 2 ^ 39))"
    using y(2) by (intro fl_mono) simp
  also have "\<dots> = 10000 - 1 / 2 ^ 39" by (simp add: fl_eval)
  finally have hi: "js_add 1000 (js_mul r 9000) \<le> 10000 - 1 / 2 ^ 39" by (simp add: js_add_def)
  from lo hi show ?thesis by simp
qed

lemma seed_is_double:
  assumes "is_double r" "0 \<le> r" "r < 1"
  shows "is_double (js_add 1000 (js_mul r 9000))"
proof -
  from seed_bounds [OF assms] have "\<bar>js_add 1000 (js_mul r 9000)\<bar> < 2 ^ 1024" by simp
  then show ?thesis by (simp add: is_double_def js_add_def fl_idem)
qed

section \<open>Seeds, rounded transfers and stored balances\<close>

lemmas signup_eval =
  signup_def signupBody_def zod_email_def zod_string_def issues_of_def Let_def
  findOne_username_def signup_env_of_def signup_body_of_def su_no_fault_def any_email_def
  unchanged_def user_valid_def empty_db_def alice_def bob_def

lemma not_int_if_floor_differs: "of_int \<lfloor>x\<rfloor> \<noteq> x \<Longrightarrow> x \<notin> \<int>"
  by (metis of_int_floor)

lemma signup_created:
  assumes "fst (signup env body d) = UserCreated t i n f l"
  shows "accounts (snd (signup env body d)) =
           accounts d @ [\<lparr>userId = new_user_id env,
                          balance = js_add 1000 (js_mul (random env) 9000)\<rparr>]"
proof (cases "signupBody (is_email env) body")
  case (Inl issues)
  then show ?thesis using assms by (simp add: signup_def)
next
  case (Inr v)
  then show ?thesis using assms
    by (simp add: signup_def Let_def split: option.splits if_splits)
qed

lemma seed_example:
  "is_double (1 / 1024) \<and> js_add 1000 (js_mul (1 / 1024) 9000) = 129125 / 128"
  by (simp add: is_double_def fl_eval)

text \<open>
  Claim C10. Every account that signup creates is seeded with the value of
  \<open>1000 + Math.random() * 9000\<close>; for every binary64 value of \<open>Math.random()\<close> in
  \<open>[0, 1)\<close> the seed lies in \<open>[1000, 10000)\<close>, so it is \<open>1000 + r * 9000\<close> for some
  \<open>r\<close> in \<open>[0, 1)\<close> and strictly positive; and it need not be a whole number of
  hundredths.
\<close>

theorem signup_seed:
  "(accounts (snd (signup env body d)) = accounts d \<or>
    accounts (snd (signup env body d)) =
      accounts d @ [\<lparr>userId = new_user_id env,
                     balance = js_add 1000 (js_mul (random env) 9000)\<rparr>]) \<and>
   (\<forall>t i n f l. fst (signup env body d) = UserCreated t i n f l \<longrightarrow>
      accounts (snd (signup env body d)) =
        accounts d @ [\<lparr>userId = new_user_id env,
                       balance = js_add 1000 (js_mul (random env) 9000)\<rparr>]) \<and>
   (is_double (random env) \<and> 0 \<le> random env \<and> random env < 1 \<longrightarrow>
      1000 \<le> js_add 1000 (js_mul (random env) 9000) \<and>
      js_add 1000 (js_mul (random env) 9000) < 10000 \<and>
      0 < js_add 1000 (js_mul (random env) 9000) \<and>
      (\<exists>r'. 0 \<le> r' \<and> r' < 1 \<and> js_add 1000 (js_mul (random env) 9000) = 1000 + r' * 9000)) \<and>
   (\<exists>r. is_double r \<and> 0 \<le> r \<and> r < 1 \<and> 100 * js_add 1000 (js_mul r 9000) \<notin> \<int>)"
proof (intro conjI allI impI)
  show "accounts (snd (signup env body d)) = accounts d \<or>
    accounts (snd (signup env body d)) =
      accounts d @ [\<lparr>userId = new_user_id env,
                     balance = js_add 1000 (js_mul (random env) 9000)\<rparr>]"
    by (rule signup_accounts)
next
  fix t i n f l
  assume "fst (signup env body d) = UserCreated t i n f l"
  then show "accounts (snd (signup env body d)) =
        accounts d @ [\<lparr>userId = new_user_id env,
                       balance = js_add 1000 (js_mul (random env) 9000)\<rparr>]"
    by (rule signup_created)
next
  assume r: "is_double (random env) \<and> 0 \<le> random env \<and> random env < 1"
  define s where "s = js_add 1000 (js_mul (random env) 9000)"
  from r seed_bounds [of "random env"] have b: "1000 \<le> s" "s \<le> 10000 - 1 / 2 ^ 39"
    by (simp_all add: s_def)
  show "1000 \<le> js_add 1000 (js_mul (random env) 9000)" using b by (simp add: s_def)
  show lt: "js_add 1000 (js_mul (random env) 9000) < 10000" using b(2) by (simp add: s_def)
  show "0 < js_add 1000 (js_mul (random env) 9000)" using b(1) by (simp add: s_def)
  have "0 \<le> (s - 1000) / 9000" using b(1) by simp
  moreover have "(s - 1000) / 9000 < 1" using lt by (simp add: s_def)
  moreover have "s = 1000 + (s - 1000) / 9000 * 9000" by (simp add: field_simps)
  ultimately show "\<exists>r'. 0 \<le> r' \<and> r' < 1 \<and> js_add 1000 (js_mul (random env) 9000) = 1000 + r' * 9000"
    unfolding s_def by blast
next
  have dd: "is_double (1 / 1024)" using seed_example by (rule conjunct1)
  have e: "js_add 1000 (js_mul (1 / 1024) 9000) = 129125 / 128"
    using seed_example by (rule conjunct2)
  have "100 * (129125 / 128 :: rat) \<notin> \<int>"
    by (rule not_int_if_floor_differs) (simp add: floor_rat_numeral_div)
  then have ni: "100 * js_add 1000 (js_mul (1 / 1024) 9000) \<notin> \<int>" unfolding e .
  show "\<exists>r. is_double r \<and> 0 \<le> r \<and> r < 1 \<and> 100 * js_add 1000 (js_mul r 9000) \<notin> \<int>"
    by (intro exI [of _ "1 / 1024"] conjI dd ni) simp_all
qed

theorem signup_seed_witness:
  "is_double (random (signup_env_of alice (1 / 1024))) \<and>
   0 \<le> random (signup_env_of alice (1 / 1024)) \<and> random (signup_env_of alice (1 / 1024)) < 1 \<and>
   signup (signup_env_of alice (1 / 1024)) (signup_body_of alice) empty_db =
     (UserCreated [] alice alice alice alice,
      \<lparr>users = [\<lparr>user_id = alice, username = alice,
                  password = [0x24, 0x32, 0x62, 0x24, 0x31, 0x30], firstName = alice,
                  lastName = alice\<rparr>],
        accounts = [\<lparr>userId = alice, balance = 129125 / 128\<rparr>], transactions = []\<rparr>) \<and>
   (1000 :: rat) \<le> 129125 / 128 \<and> (129125 / 128 :: rat) < 10000"
proof -
  have r: "is_double (random (signup_env_of alice (1 / 1024))) \<and>
           0 \<le> random (signup_env_of alice (1 / 1024)) \<and> random (signup_env_of alice (1 / 1024)) < 1"
    using seed_example by (simp add: signup_env_of_def)
  have s: "signup (signup_env_of alice (1 / 1024)) (signup_body_of alice) empty_db =
     (UserCreated [] alice alice alice alice,
      \<lparr>users = [\<lparr>user_id = alice, username = alice,
                  password = [0x24, 0x32, 0x62, 0x24, 0x31, 0x30], firstName = alice,
                  lastName = alice\<rparr>],
        accounts = [\<lparr>userId = alice, balance = 129125 / 128\<rparr>], transactions = []\<rparr>)"
    using seed_example by (simp add: signup_eval)
  from signup_seed [of "signup_env_of alice (1 / 1024)" "signup_body_of alice" empty_db] r s
  show ?thesis by simp
qed

lemma findOne_updateOne_inc:
  "findOne_account (updateOne_inc as u dl) w =
     (if w = u then map_option (\<lambda>a. a\<lparr>balance := js_add (balance a) dl\<rparr>) (findOne_account as u)
      else findOne_account as w)"
  by (induction as) (auto simp: findOne_account_def)

lemma committed_balances:
  assumes "t \<noteq> f" and "findOne_account (accounts d) f = Some sender"
    and "findOne_account (accounts d) t = Some recipient"
  shows "balance_of (committed env f t v d) f = fl (balance_of d f - data_amount v) \<and>
         balance_of (committed env f t v d) t = fl (balance_of d t + data_amount v)"
  using assms
  by (simp add: balance_of_def committed_def findOne_updateOne_inc js_add_def)

text \<open>
  Claim C1, as stated: a successful transfer of \<open>a\<close> lowers the sender's balance by
  exactly \<open>a\<close>, raises the recipient's by exactly \<open>a\<close>, and leaves their sum unchanged.
  Balances are binary64 numbers and \<open>$inc\<close> rounds. From the balances 1090 and
  7209.999999999999 (the seeds of \<open>Math.random()\<close> = 0.01 and 0.69), a transfer of the
  amount 0.7 leaves 1089.3 and 7210.699999999999: the sum of the balances has changed,
  whether it is taken exactly or in binary64 (8299.999999999998 after, 8300 before), and
  the sender's balance has not dropped by the amount.
\<close>

theorem transfer_sum_drift_counterexample:
  "succeeded (fst (transfer env0 alice (send bob (fl (7 / 10)))
     (two_accounts 1090 (7927478836264959 / 1099511627776)))) \<and>
   balance_of (snd (transfer env0 alice (send bob (fl (7 / 10)))
     (two_accounts 1090 (7927478836264959 / 1099511627776)))) alice =
     4790792064545587 / 4398046511104 \<and>
   balance_of (snd (transfer env0 alice (send bob (fl (7 / 10)))
     (two_accounts 1090 (7927478836264959 / 1099511627776)))) bob =
     3964124247202201 / 549755813888 \<and>
   (4790792064545587 / 4398046511104 + 3964124247202201 / 549755813888 :: rat) \<noteq>
     1090 + 7927478836264959 / 1099511627776 \<and>
   js_add (4790792064545587 / 4398046511104) (3964124247202201 / 549755813888) =
     4562973255270399 / 549755813888 \<and>
   js_add 1090 (7927478836264959 / 1099511627776) = 8300 \<and>
   js_add 1090 (- (4790792064545587 / 4398046511104)) \<noteq> fl (7 / 10)"
  by (simp add: transfer_eval balance_of_def fl_eval)

text \<open>
  Claim C1, amended. A successful transfer of \<open>a\<close> moves money from the account \<open>F\<close> of
  the sender's id to the account \<open>T\<close> of the recipient's id, as the store casts the two
  id strings. When \<open>F\<close> and \<open>T\<close> are two accounts, the sender's balance afterwards is the
  binary64 value nearest to its old balance less \<open>a\<close>, and the recipient's the binary64
  value nearest to its old balance plus \<open>a\<close>. Whenever these two exact results are
  binary64 values themselves, and in particular when the balances and the amount are
  whole numbers and neither the sender's old balance nor the recipient's new balance
  exceeds \<open>2 ^ 53\<close> in magnitude, the sender's balance has dropped by exactly \<open>a\<close>, the
  recipient's has risen by exactly \<open>a\<close>, and their sum is unchanged.
\<close>

theorem transfer_moves_rounded_amount:
  assumes "succeeded (fst (transfer env u b d))"
  shows "\<exists>v F T. transferBody b = Inr v \<and>
           cast_id env u = Some F \<and> cast_id env (data_to v) = Some T \<and>
           (F \<noteq> T \<longrightarrow>
             balance_of (snd (transfer env u b d)) F = fl (balance_of d F - data_amount v) \<and>
             balance_of (snd (transfer env u b d)) T = fl (balance_of d T + data_amount v) \<and>
             (fl (balance_of d F - data_amount v) = balance_of d F - data_amount v \<and>
              fl (balance_of d T + data_amount v) = balance_of d T + data_amount v \<longrightarrow>
                balance_of (snd (transfer env u b d)) F = balance_of d F - data_amount v \<and>
                balance_of (snd (transfer env u b d)) T = balance_of d T + data_amount v \<and>
                balance_of (snd (transfer env u b d)) F + balance_of (snd (transfer env u b d)) T =
                  balance_of d F + balance_of d T) \<and>
             (\<forall>f t k. balance_of d F = of_int f \<and> balance_of d T = of_int t \<and>
                      data_amount v = of_int k \<and> \<bar>f\<bar> \<le> 2 ^ 53 \<and> \<bar>t + k\<bar> \<le> 2 ^ 53 \<longrightarrow>
                balance_of (snd (transfer env u b d)) F = of_int (f - k) \<and>
                balance_of (snd (transfer env u b d)) T = of_int (t + k) \<and>
                balance_of (snd (transfer env u b d)) F + balance_of (snd (transfer env u b d)) T =
                  balance_of d F + balance_of d T))"
proof -
  from transfer_success [OF assms] obtain v F T sender recipient where
    v: "transferBody b = Inr v" and
    cF: "cast_id env u = Some F" and cT: "cast_id env (data_to v) = Some T" and
    s: "findOne_account (accounts d) F = Some sender" and
    bal: "data_amount v \<le> balance sender" and
    r: "findOne_account (accounts d) T = Some recipient" and
    res: "snd (transfer env u b d) = committed env F T v d"
    by blast
  have pos: "0 < data_amount v" using transferBody_Inr [OF v] by simp
  have sb: "balance_of d F = balance sender" using s by (simp add: balance_of_def)
  have two: "balance_of (snd (transfer env u b d)) F = fl (balance_of d F - data_amount v) \<and>
             balance_of (snd (transfer env u b d)) T = fl (balance_of d T + data_amount v) \<and>
             (fl (balance_of d F - data_amount v) = balance_of d F - data_amount v \<and>
              fl (balance_of d T + data_amount v) = balance_of d T + data_amount v \<longrightarrow>
                balance_of (snd (transfer env u b d)) F = balance_of d F - data_amount v \<and>
                balance_of (snd (transfer env u b d)) T = balance_of d T + data_amount v \<and>
                balance_of (snd (transfer env u b d)) F + balance_of (snd (transfer env u b d)) T =
                  balance_of d F + balance_of d T) \<and>
             (\<forall>f t k. balance_of d F = of_int f \<and> balance_of d T = of_int t \<and>
                      data_amount v = of_int k \<and> \<bar>f\<bar> \<le> 2 ^ 53 \<and> \<bar>t + k\<bar> \<le> 2 ^ 53 \<longrightarrow>
                balance_of (snd (transfer env u b d)) F = of_int (f - k) \<and>
                balance_of (snd (transfer env u b d)) T = of_int (t + k) \<and>
                balance_of (snd (transfer env u b d)) F + balance_of (snd (transfer env u b d)) T =
                  balance_of d F + balance_of d T)"
    if ne: "F \<noteq> T"
  proof -
    from ne have ne': "T \<noteq> F" by simp
    from committed_balances [OF ne' s r, of env v]
    have F: "balance_of (snd (transfer env u b d)) F = fl (balance_of d F - data_amount v)"
      and T: "balance_of (snd (transfer env u b d)) T = fl (balance_of d T + data_amount v)"
      by (simp_all add: res)
    have ints: "balance_of (snd (transfer env u b d)) F = of_int (f - k) \<and>
                balance_of (snd (transfer env u b d)) T = of_int (t + k) \<and>
                balance_of (snd (transfer env u b d)) F + balance_of (snd (transfer env u b d)) T =
                  balance_of d F + balance_of d T"
      if h: "balance_of d F = of_int f \<and> balance_of d T = of_int t \<and>
             data_amount v = of_int k \<and> \<bar>f\<bar> \<le> 2 ^ 53 \<and> \<bar>t + k\<bar> \<le> 2 ^ 53" for f t k
    proof -
      from h pos have k0: "0 < k" by simp
      from h bal sb have "(of_int k :: rat) \<le> of_int f" by simp
      then have kf: "k \<le> f" by (simp only: of_int_le_iff)
      from k0 kf h have a: "\<bar>f - k\<bar> \<le> 2 ^ 53" by simp
      have "fl (of_int (f - k)) = of_int (f - k)" using a by (rule fl_of_int)
      moreover have "fl (of_int (t + k)) = of_int (t + k)" using h by (intro fl_of_int) simp
      ultimately show ?thesis using F T h by simp
    qed
    have exact: "fl (balance_of d F - data_amount v) = balance_of d F - data_amount v \<and>
        fl (balance_of d T + data_amount v) = balance_of d T + data_amount v \<longrightarrow>
          balance_of (snd (transfer env u b d)) F = balance_of d F - data_amount v \<and>
          balance_of (snd (transfer env u b d)) T = balance_of d T + data_amount v \<and>
          balance_of (snd (transfer env u b d)) F + balance_of (snd (transfer env u b d)) T =
            balance_of d F + balance_of d T"
      using F T by simp
    have whole: "\<forall>f t k. balance_of d F = of_int f \<and> balance_of d T = of_int t \<and>
                      data_amount v = of_int k \<and> \<bar>f\<bar> \<le> 2 ^ 53 \<and> \<bar>t + k\<bar> \<le> 2 ^ 53 \<longrightarrow>
                balance_of (snd (transfer env u b d)) F = of_int (f - k) \<and>
                balance_of (snd (transfer env u b d)) T = of_int (t + k) \<and>
                balance_of (snd (transfer env u b d)) F + balance_of (snd (transfer env u b d)) T =
                  balance_of d F + balance_of d T"
      using ints by blast
    from F T exact whole show ?thesis by blast
  qed
  from v cF cT two show ?thesis by blast
qed

theorem transfer_moves_rounded_amount_witness:
  "succeeded (fst (transfer env0 alice (send bob 300) (two_accounts 1000 500))) \<and>
   cast_id env0 alice = Some alice \<and> cast_id env0 bob = Some bob \<and> alice \<noteq> bob \<and>
   balance_of (snd (transfer env0 alice (send bob 300) (two_accounts 1000 500))) alice = 700 \<and>
   balance_of (snd (transfer env0 alice (send bob 300) (two_accounts 1000 500))) bob = 800 \<and>
   balance_of (two_accounts 1000 500) alice = 1000 \<and> balance_of (two_accounts 1000 500) bob = 500"
proof -
  have h: "succeeded (fst (transfer env0 alice (send bob 300) (two_accounts 1000 500)))"
    by (simp add: transfer_eval fl_eval)
  have c: "cast_id env0 alice = Some alice \<and> cast_id env0 bob = Some bob \<and> alice \<noteq> bob"
    by (simp add: transfer_eval)
  have b: "balance_of (snd (transfer env0 alice (send bob 300) (two_accounts 1000 500))) alice = 700 \<and>
           balance_of (snd (transfer env0 alice (send bob 300) (two_accounts 1000 500))) bob = 800 \<and>
           balance_of (two_accounts 1000 500) alice = 1000 \<and> balance_of (two_accounts 1000 500) bob = 500"
    by (simp add: transfer_eval balance_of_def fl_eval)
  have "\<exists>v. transferBody (send bob 300) = Inr v"
    using transfer_moves_rounded_amount [OF h] by blast
  with h c b show ?thesis by simp
qed

lemma updateOne_inc_pres:
  assumes "\<forall>a \<in> set as. Q (balance a)"
    and "\<And>a. findOne_account as u = Some a \<Longrightarrow> Q (js_add (balance a) dl)"
  shows "\<forall>a \<in> set (updateOne_inc as u dl). Q (balance a)"
  using assms
proof (induction as)
  case Nil
  then show ?case by simp
next
  case (Cons a as)
  show ?case
  proof (cases "userId a = u")
    case True
    then have "Q (js_add (balance a) dl)" using Cons.prems(2) by (simp add: findOne_account_def)
    then show ?thesis using True Cons.prems(1) by simp
  next
    case False
    then have "\<And>x. findOne_account as u = Some x \<Longrightarrow> Q (js_add (balance x) dl)"
      using Cons.prems(2) by (simp add: findOne_account_def)
    with Cons.IH Cons.prems(1) have "\<forall>a \<in> set (updateOne_inc as u dl). Q (balance a)"
      by simp
    then show ?thesis using False Cons.prems(1) by simp
  qed
qed

lemma debit_double:
  assumes "is_double F" "0 < a" "a \<le> F"
  shows "is_double (js_add F (- a)) \<and> 0 \<le> js_add F (- a)"
proof -
  have d: "fl F = F \<and> \<bar>F\<bar> < 2 ^ 1024" using assms(1) unfolding is_double_def .
  then have F: "fl F = F" "F < 2 ^ 1024" by linarith+
  have lo: "0 \<le> fl (F - a)" using assms(3) by (intro fl_nonneg) simp
  have "fl (F - a) \<le> fl F" using assms(2) by (intro fl_mono) simp
  then have hi: "fl (F - a) < 2 ^ 1024" using F by simp
  from lo hi have "\<bar>fl (F - a)\<bar> < 2 ^ 1024" by linarith
  with lo show ?thesis unfolding is_double_def js_add_def by (simp add: fl_idem)
qed

lemma max_double_absorbs: "fl (2 ^ 1024 - 2 ^ 971 + 100000) = 2 ^ 1024 - 2 ^ 971"
  by (simp add: fl_eval)

lemma credit_double:
  assumes "is_double T" "0 \<le> T" "0 < a" "a \<le> 100000"
  shows "is_double (js_add T a) \<and> 0 \<le> js_add T a"
proof -
  have d: "fl T = T \<and> \<bar>T\<bar> < 2 ^ 1024" using assms(1) unfolding is_double_def .
  then have T: "fl T = T" "T < 2 ^ 1024" by linarith+
  have "T \<le> 2 ^ 1024 - 2 ^ 971" using T(1) assms(2) T(2) by (rule double_le_max)
  then have "T + a \<le> 2 ^ 1024 - 2 ^ 971 + 100000" using assms(4) by simp
  then have "fl (T + a) \<le> fl (2 ^ 1024 - 2 ^ 971 + 100000)" by (rule fl_mono)
  then have "fl (T + a) \<le> 2 ^ 1024 - 2 ^ 971" by (simp only: max_double_absorbs)
  then have hi: "fl (T + a) < 2 ^ 1024" by simp
  have lo: "0 \<le> fl (T + a)" using assms(2,3) by (intro fl_nonneg) simp
  from lo hi have "\<bar>fl (T + a)\<bar> < 2 ^ 1024" by linarith
  with lo show ?thesis unfolding is_double_def js_add_def by (simp add: fl_idem)
qed

lemma transfer_binary64:
  assumes "binary64_balances d"
  shows "binary64_balances (snd (transfer env u b d))"
proof (cases "succeeded (fst (transfer env u b d))")
  case False
  then show ?thesis using assms transfer_unsuccessful_unchanged [of env u b d] by simp
next
  case True
  from transfer_success [OF True] obtain v f t sender where
    v: "transferBody b = Inr v" and
    s: "findOne_account (accounts d) f = Some sender" and
    bal: "data_amount v \<le> balance sender" and
    res: "snd (transfer env u b d) = committed env f t v d"
    by blast
  from transferBody_Inr [OF v] have amt: "0 < data_amount v" "data_amount v \<le> 100000" by simp_all
  have all: "\<forall>a \<in> set (accounts d). is_double (balance a) \<and> 0 \<le> balance a"
    using assms by (simp add: binary64_balances_def)
  have 1: "\<forall>a \<in> set (updateOne_inc (accounts d) f (- data_amount v)).
             is_double (balance a) \<and> 0 \<le> balance a"
  proof (rule updateOne_inc_pres [OF all])
    fix a
    assume "findOne_account (accounts d) f = Some a"
    with s have a: "a = sender" by simp
    from s all have "is_double (balance sender)" by (auto dest: findOne_account_in_set)
    then show "is_double (js_add (balance a) (- data_amount v)) \<and>
               0 \<le> js_add (balance a) (- data_amount v)"
      unfolding a using amt(1) bal by (rule debit_double)
  qed
  have 2: "\<forall>a \<in> set (updateOne_inc (updateOne_inc (accounts d) f (- data_amount v))
                 t (data_amount v)). is_double (balance a) \<and> 0 \<le> balance a"
  proof (rule updateOne_inc_pres [OF 1])
    fix a
    assume "findOne_account (updateOne_inc (accounts d) f (- data_amount v)) t = Some a"
    then have "a \<in> set (updateOne_inc (accounts d) f (- data_amount v))"
      by (simp add: findOne_account_in_set)
    with 1 have "is_double (balance a)" "0 \<le> balance a" by blast+
    then show "is_double (js_add (balance a) (data_amount v)) \<and>
               0 \<le> js_add (balance a) (data_amount v)"
      using amt by (rule credit_double)
  qed
  show ?thesis unfolding res binary64_balances_def committed_def using 2 by simp
qed

lemma signup_binary64:
  assumes "binary64_balances d" "is_double (random env)" "0 \<le> random env" "random env < 1"
  shows "binary64_balances (snd (signup env body d))"
proof -
  have "is_double (js_add 1000 (js_mul (random env) 9000))"
    using assms(2-4) by (rule seed_is_double)
  moreover have "0 \<le> js_add 1000 (js_mul (random env) 9000)"
    using seed_bounds [OF assms(2-4)] by simp
  ultimately show ?thesis
    using assms(1) signup_accounts [of env body d] by (auto simp: binary64_balances_def)
qed

lemma step_binary64:
  assumes "binary64_balances d" "request_ok r"
  shows "binary64_balances (step r d)"
  using assms by (cases r) (simp_all add: transfer_binary64 signup_binary64)

lemma run_binary64:
  assumes "binary64_balances d" "\<forall>r \<in> set rs. request_ok r"
  shows "binary64_balances (run rs d)"
  using assms unfolding run_def
  by (induction rs arbitrary: d) (simp_all add: step_binary64)

text \<open>
  Claim C7, as stated: balances are stored as integer minor units or as a fixed-point
  decimal, never as binary floating point, so that no sequence of transfers drifts.
  The schema stores \<open>Number\<close>. From the empty store, two signups with
  \<open>Math.random()\<close> = 0.01 and 0.69 seed 1090 and 7209.999999999999; a transfer of the
  amount 0.7 then leaves 1089.3 and 7210.699999999999 as binary64 values, neither a whole
  number of hundredths, and the binary64 sum of the two balances has gone from 8300 to
  8299.999999999998.
\<close>

theorem stored_balance_drift_counterexample:
  "accounts (run two_signups empty_db) =
     [\<lparr>userId = alice, balance = 1090\<rparr>,
      \<lparr>userId = bob, balance = 7927478836264959 / 1099511627776\<rparr>] \<and>
   accounts (run (two_signups @ [small_transfer]) empty_db) =
     [\<lparr>userId = alice, balance = 4790792064545587 / 4398046511104\<rparr>,
      \<lparr>userId = bob, balance = 3964124247202201 / 549755813888\<rparr>] \<and>
   100 * (7927478836264959 / 1099511627776 :: rat) \<notin> \<int> \<and>
   100 * (4790792064545587 / 4398046511104 :: rat) \<notin> \<int> \<and>
   100 * (3964124247202201 / 549755813888 :: rat) \<notin> \<int> \<and>
   js_add 1090 (7927478836264959 / 1099511627776) = 8300 \<and>
   js_add (4790792064545587 / 4398046511104) (3964124247202201 / 549755813888) =
     4562973255270399 / 549755813888"
proof -
  have s: "run two_signups empty_db =
             \<lparr>users = [\<lparr>user_id = alice, username = alice,
                  password = [0x24, 0x32, 0x62, 0x24, 0x31, 0x30], firstName = alice,
                         lastName = alice\<rparr>,
                       \<lparr>user_id = bob, username = bob,
                  password = [0x24, 0x32, 0x62, 0x24, 0x31, 0x30], firstName = bob,
                         lastName = bob\<rparr>],
              accounts = [\<lparr>userId = alice, balance = 1090\<rparr>,
                          \<lparr>userId = bob, balance = 7927478836264959 / 1099511627776\<rparr>],
              transactions = []\<rparr>"
    by (simp add: run_def two_signups_def signup_eval fl_eval)
  have t: "accounts (run (two_signups @ [small_transfer]) empty_db) =
             [\<lparr>userId = alice, balance = 4790792064545587 / 4398046511104\<rparr>,
              \<lparr>userId = bob, balance = 3964124247202201 / 549755813888\<rparr>]"
    using s by (simp add: run_def small_transfer_def transfer_eval fl_eval)
  have n1: "100 * (7927478836264959 / 1099511627776 :: rat) \<notin> \<int>"
    by (rule not_int_if_floor_differs) (simp add: floor_rat_numeral_div)
  have n2: "100 * (4790792064545587 / 4398046511104 :: rat) \<notin> \<int>"
    by (rule not_int_if_floor_differs) (simp add: floor_rat_numeral_div)
  have n3: "100 * (3964124247202201 / 549755813888 :: rat) \<notin> \<int>"
    by (rule not_int_if_floor_differs) (simp add: floor_rat_numeral_div)
  have f1: "js_add 1090 (7927478836264959 / 1099511627776) = 8300"
    by (simp add: fl_eval)
  have f2: "js_add (4790792064545587 / 4398046511104) (3964124247202201 / 549755813888) =
              4562973255270399 / 549755813888"
    by (simp add: fl_eval)
  from s t n1 n2 n3 f1 f2 show ?thesis by simp
qed

text \<open>
  Claim C7, amended. Every account's balance is stored as a binary64 floating-point
  number, not as integer minor units or a fixed-point decimal: in every store reached
  from one whose balances are non-negative binary64 values (the empty store, for one) by
  signups, transfers and reads, every balance is a non-negative binary64 value, the
  rounded result of the additions at signup and at each transfer; the ceiling on the
  amount keeps the rounded sums finite.
\<close>

theorem balances_are_binary64:
  assumes "binary64_balances d" and "\<forall>r \<in> set rs. request_ok r"
  shows "binary64_balances (run rs d)"
  using assms by (rule run_binary64)

theorem balances_are_binary64_witness:
  "binary64_balances empty_db \<and> list_all request_ok (two_signups @ [small_transfer]) \<and>
   binary64_balances (run (two_signups @ [small_transfer]) empty_db) \<and>
   accounts (run (two_signups @ [small_transfer]) empty_db) =
     [\<lparr>userId = alice, balance = 4790792064545587 / 4398046511104\<rparr>,
      \<lparr>userId = bob, balance = 3964124247202201 / 549755813888\<rparr>]"
proof -
  have h1: "binary64_balances empty_db" by (simp add: binary64_balances_def empty_db_def)
  have r1: "is_double (fl (1 / 100))" "is_double (fl (69 / 100))"
    by (simp_all add: is_double_def fl_eval)
  have h2: "\<forall>r \<in> set (two_signups @ [small_transfer]). request_ok r"
    using r1 by (simp add: two_signups_def small_transfer_def signup_env_of_def fl_eval)
  have t: "accounts (run (two_signups @ [small_transfer]) empty_db) =
             [\<lparr>userId = alice, balance = 4790792064545587 / 4398046511104\<rparr>,
              \<lparr>userId = bob, balance = 3964124247202201 / 549755813888\<rparr>]"
    by (simp add: run_def two_signups_def small_transfer_def signup_eval transfer_eval fl_eval)
  from balances_are_binary64 [OF h1 h2] h1 h2 t show ?thesis
    by (simp add: list_all_iff)
qed

end
